theory Spec2Isabelle
  imports Main "HOL-Library.Word"
begin

unbundle bit_operations_syntax

section \<open>JavaScript values used by the emulator\<close>

text \<open>
  The emulator is written in TypeScript; every register is a JavaScript \<open>number\<close>.
  Integers are modelled as \<^typ>\<open>int\<close>. A few cells can also hold \<open>undefined\<close> (a read of
  the \<open>Uint8Array\<close> outside \<open>0..65535\<close>) or \<open>null\<close> (the deferred-write registers), so
  the memory data register, the opcode and the operand bytes are \<open>jsval\<close>s.
\<close>

datatype jsval = Num int | Undefined | Null

text \<open>
  Exceptions. \<open>TypeError\<close> is what \<open>Hardware.hexLog\<close> (\<open>num.toString(16)\<close>) and
  \<open>encodeAscii\<close> raise on \<open>undefined\<close> or \<open>null\<close>; the template string of a log line is
  evaluated before \<open>Hardware.log\<close> looks at the debug flag, so these throw points exist
  whether or not logging is enabled.
\<close>

datatype error =
    TypeError
  | UnknownOpcode int
  | ExecuteFunctionNotSet
  | InvalidByteValue int

fun isNum :: "jsval \<Rightarrow> bool" where
  "isNum (Num n) = True"
| "isNum Undefined = False"
| "isNum Null = False"

text \<open>\<open>ToInt32\<close> of ECMAScript, applied by \<open><<\<close> and \<open>|\<close> to their operands and result.\<close>

definition ToInt32 :: "int \<Rightarrow> int" where
  "ToInt32 n = signed_take_bit 31 n"

fun ToInt32v :: "jsval \<Rightarrow> int" where
  "ToInt32v (Num n) = ToInt32 n"
| "ToInt32v Undefined = 0"
| "ToInt32v Null = 0"

text \<open>The expression \<open>(hi << 8) | lo\<close>.\<close>

definition shl8_or :: "jsval \<Rightarrow> jsval \<Rightarrow> int" where
  "shl8_or hi lo = ToInt32 (push_bit 8 (ToInt32v hi) OR ToInt32v lo)"

text \<open>JavaScript truthiness of a \<open>number | null\<close>.\<close>

fun truthy :: "int option \<Rightarrow> bool" where
  "truthy None = False"
| "truthy (Some n) = (n \<noteq> 0)"

text \<open>\<open>v != null\<close>\<close>

fun notNull :: "int option \<Rightarrow> bool" where
  "notNull None = False"
| "notNull (Some n) = True"

fun nullable :: "int option \<Rightarrow> jsval" where
  "nullable None = Null"
| "nullable (Some n) = Num n"

text \<open>\<open>Number.prototype.toString()\<close> on an integer: its decimal numeral.\<close>

fun digits :: "nat \<Rightarrow> string" where
  "digits n = (if n < 10 then [char_of (48 + n)]
               else digits (n div 10) @ [char_of (48 + n mod 10)])"

declare digits.simps [simp del]

definition toString :: "int \<Rightarrow> string" where
  "toString i = (if i < 0 then CHR ''-'' # digits (nat (- i)) else digits (nat i))"

section \<open>lib/Ascii.ts\<close>

text \<open>
  \<open>AsciiMap\<close> has the keys \<open>0x09..0x0D\<close> and \<open>0x20..0x7E\<close>, each mapped to the ASCII
  character of that code. \<open>encodeAscii\<close> rejects numbers outside \<open>0..255\<close>, and returns
  \<open>undefined\<close> for a byte without an entry; appended to the output string that reads
  \<open>undefined\<close>.
\<close>

definition encodeAscii :: "jsval \<Rightarrow> error + string" where
  "encodeAscii b = (case b of
      Num n \<Rightarrow>
        if n < 0 \<or> n > 255 then Inl (InvalidByteValue n)
        else if (9 \<le> n \<and> n \<le> 13) \<or> (32 \<le> n \<and> n \<le> 126) then Inr [char_of n]
        else Inr ''undefined''
    | Undefined \<Rightarrow> Inl TypeError
    | Null \<Rightarrow> Inl TypeError)"

section \<open>State of the hardware components\<close>

record Interrupt =
  irqNumber :: int
  priority :: int
  deviceName :: string
  data :: "int option"

text \<open>
  \<open>Memory.MEMORY\<close> is a \<open>Uint8Array(0x10000)\<close>: 8-bit cells, of which only the indices
  \<open>0..65535\<close> exist. The model indexes it by \<^typ>\<open>int\<close> and checks the range at every
  access; the cells outside the range are never read or written.
\<close>

record Memory =
  MEMORY :: "int \<Rightarrow> 8 word"
  MAR :: "int option"
  MDR :: jsval
  isReadPending :: bool
  isWritePending :: bool

record MMU =
  PROGRAM :: "int list"
  LOAD_ADDRESS :: int
  isLoading :: bool

datatype PipelineStep = StepNone | Fetch | Decode | Execute | Writeback | InterruptCheck

datatype Instruction =
  NAN | LDA | STA | TXA | TYA | ADC | LDX | TAX | LDY | TAY | NOP | BRK | CPX | BNE | INC | SYS

text \<open>The method of \<open>Cpu\<close> that \<open>setupDecode\<close> binds as \<open>executeFunction\<close>.\<close>

datatype ExecuteFunction =
    ExecLDA | ExecSTA | ExecTXA | ExecTYA | ExecADC | ExecLDX | ExecTAX | ExecLDY
  | ExecTAY | ExecNOP | ExecBRK | ExecCPX | ExecBNE | ExecINC | ExecSYS

text \<open>
  \<open>errorLog\<close> records the calls of \<open>Hardware.log\<close> made from the \<open>catch\<close> blocks of the CPU
  (the prefix of the message and the error), when \<open>debug\<close> is set. The other log lines have
  no effect on the state and only their throw points are modelled.
\<close>

record Cpu =
  aRegister :: int
  xRegister :: int
  yRegister :: int
  zRegister :: bool
  cRegister :: bool
  pcRegister :: int
  iRegister :: Instruction
  opcode :: jsval
  operand :: "int \<Rightarrow> jsval"
  step :: PipelineStep
  currentCyclePulseCount :: int
  fetchCount :: int
  currentFetch :: int
  executeFunction :: "ExecuteFunction option"
  writeAddress :: "int option"
  writeValue :: "int option"
  pendingInterrupt :: "Interrupt option"
  useCarry :: bool
  debug :: bool
  errorLog :: "(string \<times> error) list"

text \<open>
  \<open>System\<close> owns the components. \<open>currentProgram\<close> only records whether a program is
  selected (its expected registers feed a printed verdict, which is not modelled).
\<close>

record System =
  cpu :: Cpu
  mem :: Memory
  mmu :: MMU
  waitingInterrupts :: "Interrupt list"
  running :: bool
  currentProgram :: bool
  programOutput :: string

type_synonym 'a result = "(error + 'a) \<times> System"

section \<open>hardware/Memory.ts\<close>

text \<open>The expression \<open>this.MEMORY[this.MAR]\<close>.\<close>

definition MEMORY_at :: "Memory \<Rightarrow> int option \<Rightarrow> jsval" where
  "MEMORY_at m idx = (case idx of
      Some a \<Rightarrow> if 0 \<le> a \<and> a < 65536 then Num (uint (MEMORY m a)) else Undefined
    | None \<Rightarrow> Undefined)"

text \<open>
  \<open>executeRead\<close> assigns \<open>MDR\<close> and then logs it through \<open>hexLog\<close>, which throws when the
  value read is \<open>undefined\<close>. \<open>Memory.pulse\<close> has no handler and neither has \<open>Clock.pulse\<close>,
  so the exception ends the run: the result is \<open>Inl\<close>.
\<close>

definition executeRead :: "Memory \<Rightarrow> error + Memory" where
  "executeRead m =
     (let m1 = m\<lparr>MDR := MEMORY_at m (MAR m)\<rparr>
      in if isNum (MDR m1) \<and> MAR m1 \<noteq> None then Inr m1 else Inl TypeError)"

text \<open>
  \<open>executeWrite\<close> stores \<open>MDR\<close> (converted to an 8-bit value by the typed array; a store
  outside the range is dropped), logs \<open>MDR\<close> and \<open>MAR\<close>, then reads the cell back and logs
  that value too.
\<close>

definition executeWrite :: "Memory \<Rightarrow> error + Memory" where
  "executeWrite m = (case MAR m of
      None \<Rightarrow> Inl TypeError
    | Some a \<Rightarrow> (case MDR m of
          Num v \<Rightarrow>
            (let m1 = (if 0 \<le> a \<and> a < 65536
                       then m\<lparr>MEMORY := (MEMORY m)(a := word_of_int v)\<rparr> else m)
             in if isNum (MEMORY_at m1 (MAR m1)) then Inr m1 else Inl TypeError)
        | Undefined \<Rightarrow> Inl TypeError
        | Null \<Rightarrow> Inl TypeError))"

definition init :: "Memory \<Rightarrow> Memory" where
  "init m = m\<lparr>MEMORY := (\<lambda>a. 0)\<rparr>"

section \<open>hardware/MMU.ts\<close>

definition triggerRead :: "int \<Rightarrow> System \<Rightarrow> System" where
  "triggerRead address s = s\<lparr>mem := (mem s)\<lparr>MAR := Some address, isReadPending := True\<rparr>\<rparr>"

definition writeImmediate :: "int option \<Rightarrow> jsval \<Rightarrow> System \<Rightarrow> System" where
  "writeImmediate address v s =
     s\<lparr>mem := (mem s)\<lparr>MAR := address, MDR := v, isWritePending := True\<rparr>\<rparr>"

definition loadProgram :: "System \<Rightarrow> System" where
  "loadProgram s = (case PROGRAM (mmu s) of
      byte # rest \<Rightarrow>
        (let s1 = writeImmediate (Some (LOAD_ADDRESS (mmu s))) (Num byte)
                    (s\<lparr>mmu := (mmu s)\<lparr>PROGRAM := rest\<rparr>\<rparr>)
         in s1\<lparr>mmu := (mmu s1)\<lparr>LOAD_ADDRESS := LOAD_ADDRESS (mmu s1) + 1, isLoading := True\<rparr>\<rparr>)
    | [] \<Rightarrow> s\<lparr>mmu := (mmu s)\<lparr>isLoading := False\<rparr>\<rparr>)"

definition isProgramLoading :: "System \<Rightarrow> bool" where
  "isProgramLoading s = isLoading (mmu s)"

definition MMU_reset :: "System \<Rightarrow> System" where
  "MMU_reset s = s\<lparr>mmu := \<lparr>PROGRAM = [], LOAD_ADDRESS = 0, isLoading = False\<rparr>,
                   mem := init (mem s)\<rparr>"

definition setProgram :: "int list \<Rightarrow> System \<Rightarrow> System" where
  "setProgram program s =
     loadProgram ((MMU_reset s)\<lparr>mmu := \<lparr>PROGRAM = program, LOAD_ADDRESS = 0, isLoading = True\<rparr>\<rparr>)"

text \<open>\<open>Memory.pulse\<close>: the pending write, the load hook, the pending read, the log line.\<close>

definition pulse_write :: "System \<Rightarrow> error + System" where
  "pulse_write s =
     (if isWritePending (mem s) then
        (case executeWrite (mem s) of
           Inl e \<Rightarrow> Inl e
         | Inr m \<Rightarrow>
            (let s1 = s\<lparr>mem := m\<lparr>isWritePending := False\<rparr>\<rparr>
             in Inr (if isProgramLoading s1 then loadProgram s1 else s1)))
      else Inr s)"

definition pulse_read :: "System \<Rightarrow> error + System" where
  "pulse_read s =
     (if isReadPending (mem s) then
        (case executeRead (mem s) of
           Inl e \<Rightarrow> Inl e
         | Inr m \<Rightarrow> Inr (s\<lparr>mem := m\<lparr>isReadPending := False\<rparr>\<rparr>))
      else Inr s)"

definition pulse_log :: "System \<Rightarrow> error + System" where
  "pulse_log s = (if MAR (mem s) \<noteq> None \<and> isNum (MDR (mem s)) then Inr s else Inl TypeError)"

definition Memory_pulse :: "System \<Rightarrow> error + System" where
  "Memory_pulse s = (case pulse_write s of
      Inl e \<Rightarrow> Inl e
    | Inr s1 \<Rightarrow> (case pulse_read s1 of
          Inl e \<Rightarrow> Inl e
        | Inr s2 \<Rightarrow> pulse_log s2))"

section \<open>System.ts\<close>

definition appendProgramOutput :: "string \<Rightarrow> System \<Rightarrow> System" where
  "appendProgramOutput out s = s\<lparr>programOutput := programOutput s @ out\<rparr>"

text \<open>
  \<open>handleProgramCompletion\<close> prints the results, clears the output buffer, clears the
  interrupt controller's queue and clears \<open>running\<close>. Stopping the clock means that no
  further \<open>Clock.pulse\<close> is scheduled; the listeners of the current one still run.
\<close>

definition handleProgramCompletion :: "System \<Rightarrow> System" where
  "handleProgramCompletion s =
     (let s1 = (if currentProgram s then s\<lparr>programOutput := []\<rparr> else s)
      in s1\<lparr>waitingInterrupts := [], running := False\<rparr>)"

definition stopSystem :: "System \<Rightarrow> System" where
  "stopSystem s =
     (if running s then
        (let s1 = s\<lparr>running := False\<rparr>
         in if currentProgram s1 then (handleProgramCompletion s1)\<lparr>currentProgram := False\<rparr>
            else s1)
      else s)"

section \<open>lib/Instructions.ts\<close>

text \<open>
  \<open>InstructionSet.decodeMapper\<close>: the object literal indexed by \<open>this.opcode\<close>. Each
  entry calls \<open>setupDecode\<close> with the operand count, the tag and the bound method; the
  entry of \<open>0xFF\<close> looks at the X register.
\<close>

definition decodeMapper :: "int \<Rightarrow> int \<Rightarrow> (int \<times> Instruction \<times> ExecuteFunction) option" where
  "decodeMapper x n =
     (if n = 0xA9 then Some (1, LDA, ExecLDA)
      else if n = 0xAD then Some (2, LDA, ExecLDA)
      else if n = 0x8D then Some (2, STA, ExecSTA)
      else if n = 0x8A then Some (0, TXA, ExecTXA)
      else if n = 0x98 then Some (0, TYA, ExecTYA)
      else if n = 0x6D then Some (2, ADC, ExecADC)
      else if n = 0xA2 then Some (1, LDX, ExecLDX)
      else if n = 0xAE then Some (2, LDX, ExecLDX)
      else if n = 0xAA then Some (0, TAX, ExecTAX)
      else if n = 0xA0 then Some (1, LDY, ExecLDY)
      else if n = 0xAC then Some (2, LDY, ExecLDY)
      else if n = 0xA8 then Some (0, TAY, ExecTAY)
      else if n = 0xEA then Some (0, NOP, ExecNOP)
      else if n = 0x00 then Some (0, BRK, ExecBRK)
      else if n = 0xEC then Some (2, CPX, ExecCPX)
      else if n = 0xD0 then Some (1, BNE, ExecBNE)
      else if n = 0xEE then Some (2, INC, ExecINC)
      else if n = 0xFF then (if x = 0x03 then Some (2, SYS, ExecSYS) else Some (0, SYS, ExecSYS))
      else None)"

section \<open>hardware/Cpu.ts\<close>

definition logError :: "string \<Rightarrow> error \<Rightarrow> System \<Rightarrow> System" where
  "logError tag e s =
     (if debug (cpu s) then s\<lparr>cpu := (cpu s)\<lparr>errorLog := errorLog (cpu s) @ [(tag, e)]\<rparr>\<rparr> else s)"

text \<open>\<open>catch (error) { this.log(...); throw error; }\<close> around a method body.\<close>

definition rethrow :: "string \<Rightarrow> 'a result \<Rightarrow> 'a result" where
  "rethrow tag r = (case r of (Inl e, s) \<Rightarrow> (Inl e, logError tag e s) | (Inr v, s) \<Rightarrow> (Inr v, s))"

text \<open>\<open>(this.operand[1] << 8) | this.operand[0]\<close>\<close>

definition operandAddress :: "Cpu \<Rightarrow> int" where
  "operandAddress c = shl8_or (operand c 1) (operand c 0)"

definition handleAdditionalFetches :: "System \<Rightarrow> unit result" where
  "handleAdditionalFetches s = rethrow ''Fetch''
     (let s1 = s\<lparr>cpu := (cpu s)\<lparr>currentCyclePulseCount := currentCyclePulseCount (cpu s) + 1\<rparr>\<rparr>;
          c = cpu s1
      in if currentCyclePulseCount c = 1 then (Inr (), triggerRead (pcRegister c) s1)
         else if currentCyclePulseCount c = 2 then
           (let v = MDR (mem s1)
            in if \<not> isNum v then (Inl TypeError, s1)
               else
                 (let c1 = c\<lparr>operand := (operand c)(currentFetch c := v),
                              pcRegister := pcRegister c + 1,
                              currentFetch := currentFetch c + 1,
                              currentCyclePulseCount := 0\<rparr>;
                      c2 = (if currentFetch c1 \<ge> fetchCount c1
                            then c1\<lparr>fetchCount := 0, currentFetch := 0\<rparr> else c1)
                  in (Inr (), s1\<lparr>cpu := c2\<rparr>)))
         else (Inr (), s1))"

definition setupDecode :: "int \<Rightarrow> Instruction \<Rightarrow> ExecuteFunction \<Rightarrow> Cpu \<Rightarrow> Cpu" where
  "setupDecode numOperands currentInstruction nextExecute c =
     c\<lparr>fetchCount := numOperands, iRegister := currentInstruction,
       executeFunction := Some nextExecute\<rparr>"

text \<open>
  \<open>loadCaseHelper\<close>; \<open>setReg\<close> is the \<open>set\<close> closure of the calling instruction, which logs
  its argument through \<open>hexLog\<close> before masking it into the register. A micro-operation
  returns \<open>true\<close> when it needs another pulse; a method that falls off its end returns
  \<open>undefined\<close>, which \<open>pulse\<close> negates like \<open>false\<close>.
\<close>

definition loadCaseHelper :: "int \<Rightarrow> (int \<Rightarrow> Cpu \<Rightarrow> Cpu) \<Rightarrow> System \<Rightarrow> bool result" where
  "loadCaseHelper immCaseOpcode setReg s = rethrow ''Load''
     (let c = cpu s
      in if opcode c = Num immCaseOpcode then
           (case operand c 0 of
              Num v \<Rightarrow> (Inr False, s\<lparr>cpu := setReg v c\<rparr>)
            | Undefined \<Rightarrow> (Inl TypeError, s)
            | Null \<Rightarrow> (Inl TypeError, s))
         else if currentCyclePulseCount c = 1 then
           (Inr True, triggerRead (operandAddress c) s)
         else if currentCyclePulseCount c = 2 then
           (case MDR (mem s) of
              Num v \<Rightarrow> (Inr False, s\<lparr>cpu := setReg v c\<rparr>)
            | Undefined \<Rightarrow> (Inl TypeError, s)
            | Null \<Rightarrow> (Inl TypeError, s))
         else (Inr True, s))"

definition setInterrupt :: "Interrupt option \<Rightarrow> System \<Rightarrow> System" where
  "setInterrupt interrupt s = (case interrupt of
      Some i \<Rightarrow> s\<lparr>cpu := (cpu s)\<lparr>pendingInterrupt := Some i\<rparr>\<rparr>
    | None \<Rightarrow> s)"

definition Cpu_LDA :: "System \<Rightarrow> bool result" where
  "Cpu_LDA s = (if isNum (opcode (cpu s))
                then loadCaseHelper 0xA9 (\<lambda>v c. c\<lparr>aRegister := v AND 0xFF\<rparr>) s
                else (Inl TypeError, s))"

definition Cpu_STA :: "System \<Rightarrow> bool result" where
  "Cpu_STA s = rethrow ''STA''
     (let c = cpu s; address = operandAddress c
      in if currentCyclePulseCount c = 1
         then (Inr True, writeImmediate (Some address) (Num (aRegister c)) s)
         else (Inr False, s))"

definition Cpu_TXA :: "System \<Rightarrow> bool result" where
  "Cpu_TXA s = (Inr False, s\<lparr>cpu := (cpu s)\<lparr>aRegister := xRegister (cpu s) AND 0xFF\<rparr>\<rparr>)"

definition Cpu_TYA :: "System \<Rightarrow> bool result" where
  "Cpu_TYA s = (Inr False, s\<lparr>cpu := (cpu s)\<lparr>aRegister := yRegister (cpu s) AND 0xFF\<rparr>\<rparr>)"

definition Cpu_ADC :: "System \<Rightarrow> bool result" where
  "Cpu_ADC s = rethrow ''ADC''
     (let c = cpu s
      in if currentCyclePulseCount c = 1 then
           (Inr True, triggerRead (operandAddress c) s)
         else if currentCyclePulseCount c = 2 then
           (case MDR (mem s) of
              Num v \<Rightarrow>
                (let sum = aRegister c + v + (if useCarry c \<and> cRegister c then 1 else 0)
                 in (Inr False, s\<lparr>cpu := c\<lparr>cRegister := (sum > 0xFF), aRegister := sum AND 0xFF\<rparr>\<rparr>))
            | Undefined \<Rightarrow> (Inl TypeError, s)
            | Null \<Rightarrow> (Inl TypeError, s))
         else (Inr False, s))"

definition Cpu_LDX :: "System \<Rightarrow> bool result" where
  "Cpu_LDX s = (if isNum (opcode (cpu s))
                then loadCaseHelper 0xA2 (\<lambda>v c. c\<lparr>xRegister := v AND 0xFF\<rparr>) s
                else (Inl TypeError, s))"

definition Cpu_TAX :: "System \<Rightarrow> bool result" where
  "Cpu_TAX s = (Inr False, s\<lparr>cpu := (cpu s)\<lparr>xRegister := aRegister (cpu s) AND 0xFF\<rparr>\<rparr>)"

definition Cpu_LDY :: "System \<Rightarrow> bool result" where
  "Cpu_LDY s = (if isNum (opcode (cpu s))
                then loadCaseHelper 0xA0 (\<lambda>v c. c\<lparr>yRegister := v AND 0xFF\<rparr>) s
                else (Inl TypeError, s))"

definition Cpu_TAY :: "System \<Rightarrow> bool result" where
  "Cpu_TAY s = (Inr False, s\<lparr>cpu := (cpu s)\<lparr>yRegister := aRegister (cpu s) AND 0xFF\<rparr>\<rparr>)"

definition Cpu_NOP :: "System \<Rightarrow> bool result" where
  "Cpu_NOP s = (Inr False, s)"

definition Cpu_BRK :: "System \<Rightarrow> bool result" where
  "Cpu_BRK s = (Inr False, stopSystem s)"

definition Cpu_CPX :: "System \<Rightarrow> bool result" where
  "Cpu_CPX s = rethrow ''CPX''
     (let c = cpu s
      in if currentCyclePulseCount c = 1 then
           (Inr True, triggerRead (operandAddress c) s)
         else if currentCyclePulseCount c = 2 then
           (case MDR (mem s) of
              Num v \<Rightarrow>
                (let r = (xRegister c - v) AND 0xFF
                 in (Inr False, s\<lparr>cpu := c\<lparr>zRegister := (r = 0), cRegister := (xRegister c \<ge> v)\<rparr>\<rparr>))
            | Undefined \<Rightarrow> (Inl TypeError, s)
            | Null \<Rightarrow> (Inl TypeError, s))
         else (Inr False, s))"

text \<open>
  \<open>BNE\<close>: with an \<open>undefined\<close> offset the sum is \<open>NaN\<close> and \<open>NaN & 0xFFFF\<close> is 0; a \<open>null\<close>
  offset counts as 0.
\<close>

definition Cpu_BNE :: "System \<Rightarrow> bool result" where
  "Cpu_BNE s =
     (let c = cpu s
      in if \<not> zRegister c then
           (let newPC = (case operand c 0 of
                           Num offset \<Rightarrow>
                             (let signedOffset = (if offset < 0x80 then offset else offset - 0x100)
                              in (pcRegister c + signedOffset) AND 0xFFFF)
                         | Undefined \<Rightarrow> 0
                         | Null \<Rightarrow> pcRegister c AND 0xFFFF)
            in (Inr False, s\<lparr>cpu := c\<lparr>pcRegister := newPC\<rparr>\<rparr>))
         else (Inr False, s))"

text \<open>
  \<open>INC\<close> latches \<open>writeValue\<close> and \<open>writeAddress\<close> and only then logs \<open>MDR\<close>;
  \<open>(undefined + 1) & 0xFF\<close> is 0 and \<open>(null + 1) & 0xFF\<close> is 1.
\<close>

definition Cpu_INC :: "System \<Rightarrow> bool result" where
  "Cpu_INC s = rethrow ''INC''
     (let c = cpu s; address = operandAddress c
      in if currentCyclePulseCount c = 1 then
           (Inr True, triggerRead address s)
         else if currentCyclePulseCount c = 2 then
           (let wv = (case MDR (mem s) of
                        Num v \<Rightarrow> (v + 1) AND 0xFF
                      | Undefined \<Rightarrow> 0
                      | Null \<Rightarrow> 1);
                s1 = s\<lparr>cpu := c\<lparr>writeValue := Some wv, writeAddress := Some address\<rparr>\<rparr>
            in if isNum (MDR (mem s)) then (Inr False, s1) else (Inl TypeError, s1))
         else (Inr False, s))"

text \<open>
  The string print shared by \<open>SYS\<close> with X = 2 and X = 3; \<open>start\<close> is the address of the
  first character. \<open>writeAddress\<close> is the cursor.
\<close>

definition printString :: "int \<Rightarrow> System \<Rightarrow> bool result" where
  "printString start s =
     (let c = cpu s
      in if currentCyclePulseCount c = 1 then
           (Inr True, triggerRead start (s\<lparr>cpu := c\<lparr>writeAddress := Some start\<rparr>\<rparr>))
         else if currentCyclePulseCount c \<ge> 2 then
           (let currentChar = MDR (mem s)
            in case writeAddress c of
                 None \<Rightarrow> (Inl TypeError, s)
               | Some cursor \<Rightarrow>
                  if isNum currentChar then
                    (if currentChar \<noteq> Num 0 then
                       (case encodeAscii currentChar of
                          Inl e \<Rightarrow> (Inl e, s)
                        | Inr out \<Rightarrow>
                           (let s1 = appendProgramOutput out s
                            in (Inr True,
                                triggerRead (cursor + 1)
                                  (s1\<lparr>cpu := (cpu s1)\<lparr>writeAddress := Some (cursor + 1)\<rparr>\<rparr>))))
                     else (Inr False, s))
                  else (Inl TypeError, s))
         else (Inr False, s))"

definition Cpu_SYS :: "System \<Rightarrow> bool result" where
  "Cpu_SYS s = rethrow ''SYS''
     (let c = cpu s
      in if xRegister c = 0x01 then
           (Inr False, appendProgramOutput (toString (yRegister c)) s)
         else if xRegister c = 0x02 then printString (ToInt32 (yRegister c)) s
         else if xRegister c = 0x03 then printString (operandAddress c) s
         else (Inr False, s))"

fun callExecute :: "ExecuteFunction \<Rightarrow> System \<Rightarrow> bool result" where
  "callExecute ExecLDA = Cpu_LDA"
| "callExecute ExecSTA = Cpu_STA"
| "callExecute ExecTXA = Cpu_TXA"
| "callExecute ExecTYA = Cpu_TYA"
| "callExecute ExecADC = Cpu_ADC"
| "callExecute ExecLDX = Cpu_LDX"
| "callExecute ExecTAX = Cpu_TAX"
| "callExecute ExecLDY = Cpu_LDY"
| "callExecute ExecTAY = Cpu_TAY"
| "callExecute ExecNOP = Cpu_NOP"
| "callExecute ExecBRK = Cpu_BRK"
| "callExecute ExecCPX = Cpu_CPX"
| "callExecute ExecBNE = Cpu_BNE"
| "callExecute ExecINC = Cpu_INC"
| "callExecute ExecSYS = Cpu_SYS"

text \<open>
  The stages of \<open>Cpu.pulse\<close>, one definition per \<open>case\<close> of the \<open>switch\<close>. Each runs
  after \<open>currentCyclePulseCount\<close> has been incremented. \<open>Inl\<close> is a \<open>throw\<close>: the state
  reached at the throw is kept, since nothing rolls the assignments back.
\<close>

definition pulse_Fetch :: "System \<Rightarrow> unit result" where
  "pulse_Fetch s =
     (let c = cpu s
      in if currentCyclePulseCount c = 1 then (Inr (), triggerRead (pcRegister c) s)
         else if currentCyclePulseCount c = 2 then
           (if \<not> isNum (MDR (mem s)) then (Inl TypeError, s)
            else (Inr (), s\<lparr>cpu := c\<lparr>opcode := MDR (mem s),
                                      pcRegister := pcRegister c + 1,
                                      currentCyclePulseCount := 0,
                                      step := Decode\<rparr>\<rparr>))
         else (Inr (), s))"

definition pulse_Decode :: "System \<Rightarrow> unit result" where
  "pulse_Decode s =
     (let c = cpu s
      in case opcode c of
           Num n \<Rightarrow>
             (case decodeMapper (xRegister c) n of
                Some (numOperands, currentInstruction, nextExecute) \<Rightarrow>
                  (Inr (), s\<lparr>cpu := (setupDecode numOperands currentInstruction nextExecute c)
                                      \<lparr>currentCyclePulseCount := 0, step := Execute\<rparr>\<rparr>)
              | None \<Rightarrow> (Inl (UnknownOpcode n), s))
         | Undefined \<Rightarrow> (Inl TypeError, s)
         | Null \<Rightarrow> (Inl TypeError, s))"

definition pulse_Execute :: "System \<Rightarrow> unit result" where
  "pulse_Execute s = (case executeFunction (cpu s) of
      None \<Rightarrow> (Inl ExecuteFunctionNotSet, s)
    | Some f \<Rightarrow>
       (case callExecute f s of
          (Inl e, s1) \<Rightarrow> (Inl e, s1)
        | (Inr again, s1) \<Rightarrow>
            if \<not> again then
              (Inr (), s1\<lparr>cpu := (cpu s1)
                 \<lparr>currentCyclePulseCount := 0,
                  step := (if truthy (writeAddress (cpu s1)) \<and> truthy (writeValue (cpu s1))
                           then Writeback else InterruptCheck)\<rparr>\<rparr>)
            else (Inr (), s1)))"

definition pulse_Writeback :: "System \<Rightarrow> unit result" where
  "pulse_Writeback s =
     (let c = cpu s; s1 = s\<lparr>cpu := c\<lparr>currentCyclePulseCount := 0\<rparr>\<rparr>
      in if notNull (writeAddress c) \<or> notNull (writeValue c) then
           (let s2 = writeImmediate (writeAddress c) (nullable (writeValue c)) s1
            in if notNull (writeValue c) \<and> notNull (writeAddress c)
               then (Inr (), s2\<lparr>cpu := (cpu s2)\<lparr>writeAddress := None, writeValue := None,
                                                 step := InterruptCheck\<rparr>\<rparr>)
               else (Inl TypeError, s2))
         else (Inr (), s1\<lparr>cpu := (cpu s1)\<lparr>step := InterruptCheck\<rparr>\<rparr>))"

text \<open>
  \<open>String.fromCharCode(data).toLowerCase() === 'q'\<close>: the code unit is \<open>data\<close> modulo
  \<open>65536\<close> (0 for a missing \<open>data\<close>), and only \<open>Q\<close> and \<open>q\<close> lower-case to \<open>q\<close>.
\<close>

definition isQuitKey :: "int option \<Rightarrow> bool" where
  "isQuitKey d = (case d of
      None \<Rightarrow> False
    | Some n \<Rightarrow> n mod 65536 = 0x51 \<or> n mod 65536 = 0x71)"

text \<open>
  The result of \<open>pulse_InterruptCheck\<close> is \<open>False\<close> when the stage leaves \<open>pulse\<close> by
  \<open>return\<close> (the quit key), \<open>True\<close> when it ends by \<open>break\<close>.
\<close>

definition pulse_InterruptCheck :: "System \<Rightarrow> bool result" where
  "pulse_InterruptCheck s =
     (let c = cpu s
      in if (case pendingInterrupt c of
               Some i \<Rightarrow> deviceName i = ''Keyboard'' \<and> isQuitKey (data i)
             | None \<Rightarrow> False)
         then (let s1 = stopSystem s
               in (Inr False, s1\<lparr>cpu := (cpu s1)\<lparr>pendingInterrupt := None\<rparr>\<rparr>))
         else (Inr True, s\<lparr>cpu := c\<lparr>pendingInterrupt := None,
                                        currentCyclePulseCount := 0,
                                        step := Fetch\<rparr>\<rparr>))"

text \<open>The log line at the end of \<open>pulse\<close> passes the opcode and both operands to \<open>hexLog\<close>.\<close>

definition stateLog :: "System \<Rightarrow> unit result" where
  "stateLog s =
     (if isNum (opcode (cpu s)) \<and> isNum (operand (cpu s) 0) \<and> isNum (operand (cpu s) 1)
      then (Inr (), s) else (Inl TypeError, s))"

definition thenLog :: "unit result \<Rightarrow> unit result" where
  "thenLog r = (case r of (Inl e, s) \<Rightarrow> (Inl e, s) | (Inr u, s) \<Rightarrow> stateLog s)"

text \<open>The body of the \<open>try\<close> block of \<open>Cpu.pulse\<close>.\<close>

definition pulse_try :: "System \<Rightarrow> unit result" where
  "pulse_try s =
     (if \<not> running s then (Inr (), s)
      else if isProgramLoading s then (Inr (), s)
      else if fetchCount (cpu s) > 0 then handleAdditionalFetches s
      else
        (let s1 = s\<lparr>cpu := (cpu s)\<lparr>currentCyclePulseCount := currentCyclePulseCount (cpu s) + 1\<rparr>\<rparr>
         in case step (cpu s1) of
              Fetch \<Rightarrow> thenLog (pulse_Fetch s1)
            | Decode \<Rightarrow> thenLog (pulse_Decode s1)
            | Execute \<Rightarrow> thenLog (pulse_Execute s1)
            | Writeback \<Rightarrow> thenLog (pulse_Writeback s1)
            | InterruptCheck \<Rightarrow>
                (case pulse_InterruptCheck s1 of
                   (Inl e, s2) \<Rightarrow> (Inl e, s2)
                 | (Inr fallThrough, s2) \<Rightarrow> if fallThrough then stateLog s2 else (Inr (), s2))
            | StepNone \<Rightarrow> stateLog s1))"

text \<open>\<open>Cpu.pulse\<close>: the \<open>catch\<close> block logs the error and does nothing else.\<close>

definition Cpu_pulse :: "System \<Rightarrow> System" where
  "Cpu_pulse s = (case pulse_try s of
      (Inl e, s1) \<Rightarrow> logError ''CPU'' e s1
    | (Inr u, s1) \<Rightarrow> s1)"

definition Cpu_reset :: "Cpu \<Rightarrow> Cpu" where
  "Cpu_reset c = c\<lparr>aRegister := 0, xRegister := 0, yRegister := 0, pcRegister := 0,
                   zRegister := False, cRegister := False, currentCyclePulseCount := 0,
                   fetchCount := 0, currentFetch := 0, executeFunction := None,
                   writeAddress := None, step := Fetch, iRegister := NAN, opcode := Num 0,
                   operand := (\<lambda>i. Undefined)(0 := Num 0, 1 := Num 0),
                   pendingInterrupt := None\<rparr>"

section \<open>hardware/InterruptController.ts\<close>

definition acceptInterrupt :: "Interrupt \<Rightarrow> System \<Rightarrow> System" where
  "acceptInterrupt newInterrupt s = s\<lparr>waitingInterrupts := waitingInterrupts s @ [newInterrupt]\<rparr>"

definition clearInterrupts :: "System \<Rightarrow> System" where
  "clearInterrupts s = s\<lparr>waitingInterrupts := []\<rparr>"

text \<open>The \<open>forEach\<close> of \<open>InterruptController.pulse\<close>, as a fold over the waiting list.\<close>

definition scanStep :: "int \<times> Interrupt option \<Rightarrow> Interrupt \<Rightarrow> int \<times> Interrupt option" where
  "scanStep acc interrupt =
     (case acc of (runningPriority, runningInterrupt) \<Rightarrow>
        if priority interrupt > runningPriority then (priority interrupt, Some interrupt)
        else (runningPriority, runningInterrupt))"

definition runningInterrupt :: "Interrupt list \<Rightarrow> Interrupt option" where
  "runningInterrupt waiting = snd (foldl scanStep (- 1, None) waiting)"

definition InterruptController_pulse :: "System \<Rightarrow> System" where
  "InterruptController_pulse s =
     (setInterrupt (runningInterrupt (waitingInterrupts s)) s)\<lparr>waitingInterrupts := []\<rparr>"

section \<open>hardware/Clock.ts\<close>

text \<open>
  \<open>Clock.pulse\<close> calls the listeners in registration order: CPU, Memory,
  InterruptController (\<open>System.startSystem\<close>). An exception of \<open>Memory.pulse\<close> leaves
  the \<open>forEach\<close>, so the controller is not reached.
\<close>

definition Clock_pulse :: "System \<Rightarrow> error + System" where
  "Clock_pulse s = (case Memory_pulse (Cpu_pulse s) of
      Inl e \<Rightarrow> Inl e
    | Inr s1 \<Rightarrow> Inr (InterruptController_pulse s1))"

fun ticks :: "nat \<Rightarrow> System \<Rightarrow> error + System" where
  "ticks 0 s = Inr s"
| "ticks (Suc n) s = (case Clock_pulse s of Inl e \<Rightarrow> Inl e | Inr s1 \<Rightarrow> ticks n s1)"

section \<open>Power-on state and program start\<close>

text \<open>
  The field initialisers of the classes, with the two start-up options
  (\<open>useCarry\<close>, debug mode), and the key handler of \<open>System.runProgramMenu\<close> for a
  selected program: reset the CPU, the MMU and the memory, hand the code to
  \<open>MMU.setProgram\<close>, clear the interrupt queue, set \<open>running\<close> and start the clock.
\<close>

definition powerOn :: "bool \<Rightarrow> bool \<Rightarrow> System" where
  "powerOn carry dbg =
     \<lparr>cpu = \<lparr>aRegister = 0, xRegister = 0, yRegister = 0, zRegister = False, cRegister = False,
             pcRegister = 0, iRegister = NAN, opcode = Num 0,
             operand = (\<lambda>i. Undefined)(0 := Num 0, 1 := Num 0),
             step = Fetch, currentCyclePulseCount = 0, fetchCount = 0, currentFetch = 0,
             executeFunction = None, writeAddress = None, writeValue = None,
             pendingInterrupt = None, useCarry = carry, debug = dbg, errorLog = []\<rparr>,
      mem = \<lparr>MEMORY = (\<lambda>a. 0), MAR = Some 0, MDR = Num 0,
             isReadPending = False, isWritePending = False\<rparr>,
      mmu = \<lparr>PROGRAM = [], LOAD_ADDRESS = 0, isLoading = False\<rparr>,
      waitingInterrupts = [], running = True, currentProgram = False, programOutput = []\<rparr>"

definition runProgram :: "int list \<Rightarrow> System \<Rightarrow> System" where
  "runProgram code s =
     (let s1 = s\<lparr>cpu := Cpu_reset (cpu s)\<rparr>;
          s2 = MMU_reset s1;
          s3 = s2\<lparr>mem := init (mem s2)\<rparr>;
          s4 = setProgram code s3
      in (clearInterrupts (s4\<lparr>currentProgram := True\<rparr>))\<lparr>running := True\<rparr>)"

text \<open>
  Test harness for single instructions: the CPU as \<open>Decode\<close> and the operand fetches
  leave it for an instruction with a two-byte operand, and a run of the clock until the
  pipeline is back at \<open>Fetch\<close>; \<open>None\<close> when that takes more than \<open>n\<close> ticks.
\<close>

definition decoded :: "Instruction \<Rightarrow> ExecuteFunction \<Rightarrow> int \<Rightarrow> int \<Rightarrow> System \<Rightarrow> System" where
  "decoded tag f op address s =
     s\<lparr>cpu := (setupDecode 0 tag f (cpu s))
         \<lparr>opcode := Num op,
          operand := (operand (cpu s))(0 := Num (address mod 256), 1 := Num (address div 256)),
          currentFetch := 0, currentCyclePulseCount := 0, step := Execute\<rparr>\<rparr>"

fun untilFetch :: "nat \<Rightarrow> System \<Rightarrow> (error + System) option" where
  "untilFetch 0 s = None"
| "untilFetch (Suc n) s =
     (case Clock_pulse s of
        Inl e \<Rightarrow> Some (Inl e)
      | Inr s1 \<Rightarrow> if step (cpu s1) = Fetch then Some (Inr s1) else untilFetch n s1)"

text \<open>One \<open>INC\<close> of the cell at \<open>address\<close>, from \<open>Execute\<close> to the next \<open>Fetch\<close>, and \<open>n\<close> of them.\<close>

definition INC_instruction :: "int \<Rightarrow> System \<Rightarrow> (error + System) option" where
  "INC_instruction address s = untilFetch 5 (decoded INC ExecINC 0xEE address s)"

fun repeatINC :: "nat \<Rightarrow> int \<Rightarrow> System \<Rightarrow> (error + System) option" where
  "repeatINC 0 address s = Some (Inr s)"
| "repeatINC (Suc n) address s =
     (case INC_instruction address s of
        Some (Inr s1) \<Rightarrow> repeatINC n address s1
      | r \<Rightarrow> r)"

section \<open>Predicates and example inputs of the properties\<close>

text \<open>The CPU's next pulse runs the \<open>InterruptCheck\<close> stage.\<close>

definition interruptCheckDue :: "System \<Rightarrow> bool" where
  "interruptCheckDue s =
     (running s \<and> \<not> isProgramLoading s \<and> \<not> fetchCount (cpu s) > 0 \<and> step (cpu s) = InterruptCheck)"

text \<open>
  Program load in progress: the bytes before index \<open>k\<close> are handled, byte \<open>k\<close> is latched
  for the pending write to address \<open>k\<close>, the rest is queued. With \<open>clean\<close> (no read was
  pending when \<open>setProgram\<close> was called) the latched byte is \<open>p ! k\<close> and the cells below
  \<open>k\<close> hold the program.
\<close>

definition loading :: "bool \<Rightarrow> int list \<Rightarrow> nat \<Rightarrow> System \<Rightarrow> bool" where
  "loading clean p k s =
     (PROGRAM (mmu s) = drop (Suc k) p \<and> LOAD_ADDRESS (mmu s) = int k + 1 \<and> isLoading (mmu s) \<and>
      MAR (mem s) = Some (int k) \<and> isNum (MDR (mem s)) \<and> isWritePending (mem s) \<and>
      (isReadPending (mem s) \<longrightarrow> k = 0 \<and> \<not> clean) \<and>
      (clean \<longrightarrow> MDR (mem s) = Num (p ! k) \<and>
         (\<forall>a. MEMORY (mem s) a = (if 0 \<le> a \<and> a < int k then word_of_int (p ! nat a) else 0))))"


text \<open>The CPU's next pulse decodes an opcode \<open>n\<close> that the decode table does not have.\<close>

definition unknownOpcodeAt :: "int \<Rightarrow> System \<Rightarrow> bool" where
  "unknownOpcodeAt n s =
     (running s \<and> \<not> isProgramLoading s \<and> \<not> fetchCount (cpu s) > 0 \<and>
      step (cpu s) = Decode \<and> opcode (cpu s) = Num n \<and>
      decodeMapper (xRegister (cpu s)) n = None)"

text \<open>
  Between instructions with nothing going on: no program load, no memory operation
  pending, no interrupt pending or waiting.
\<close>

definition idle :: "System \<Rightarrow> bool" where
  "idle s = (running s \<and> \<not> isLoading (mmu s) \<and> \<not> isWritePending (mem s) \<and>
             \<not> isReadPending (mem s) \<and> pendingInterrupt (cpu s) = None \<and> waitingInterrupts s = [])"

text \<open>Interrupts for the examples: one below the scan's start priority, and keystrokes.\<close>

definition timerInterrupt :: Interrupt where
  "timerInterrupt = \<lparr>irqNumber = 2, priority = - 1, deviceName = ''Timer'', data = None\<rparr>"

definition keyInterrupt :: "int \<Rightarrow> int \<Rightarrow> Interrupt" where
  "keyInterrupt p d = \<lparr>irqNumber = 1, priority = p, deviceName = ''Keyboard'', data = Some d\<rparr>"

definition waitingExample :: "Interrupt list" where
  "waitingExample = [keyInterrupt 1 0x61, timerInterrupt, keyInterrupt 5 0x62, keyInterrupt 5 0x63]"

text \<open>A program one byte longer than the memory.\<close>

definition longProgram :: "int list" where
  "longProgram = replicate 65537 0"

text \<open>A keystroke latched into the CPU while a one-byte program (\<open>NOP\<close>) is started.\<close>

definition latchedExample :: System where
  "latchedExample = setInterrupt (Some (keyInterrupt 1 0x61)) (runProgram [0xEA] (powerOn False False))"

text \<open>A memory with a write of 7 to address 16 and a read both pending.\<close>

definition bothPendingExample :: System where
  "bothPendingExample = writeImmediate (Some 16) (Num 7) (triggerRead 16 (powerOn False False))"

section \<open>Basic facts\<close>

lemmas exec_defs =
  Cpu_LDA_def Cpu_STA_def Cpu_TXA_def Cpu_TYA_def Cpu_ADC_def Cpu_LDX_def Cpu_TAX_def
  Cpu_LDY_def Cpu_TAY_def Cpu_NOP_def Cpu_BRK_def Cpu_CPX_def Cpu_BNE_def Cpu_INC_def
  Cpu_SYS_def printString_def loadCaseHelper_def rethrow_def logError_def triggerRead_def
  writeImmediate_def appendProgramOutput_def stopSystem_def handleProgramCompletion_def

lemmas stage_defs = pulse_Fetch_def pulse_Decode_def pulse_Execute_def pulse_Writeback_def
  pulse_InterruptCheck_def stateLog_def thenLog_def setupDecode_def

lemma uint_byte: "uint (word_of_int v :: 8 word) = v mod 256"
  by (simp add: uint_word_of_int_eq take_bit_eq_mod)

lemmas memory_defs = Memory_pulse_def pulse_write_def pulse_read_def pulse_log_def
  executeWrite_def executeRead_def MEMORY_at_def isProgramLoading_def

lemma all_Inr_case:
  "(\<forall>x. r = Inr x \<longrightarrow> P x) = (case r of Inl e \<Rightarrow> True | Inr x \<Rightarrow> P x)"
  by (cases r) auto

lemma ex_Inr_case:
  "(\<exists>x. r = Inr x \<and> P x) = (case r of Inl e \<Rightarrow> False | Inr x \<Rightarrow> P x)"
  by (cases r) auto

lemma ToInt32_small: "- (2 ^ 31) \<le> n \<Longrightarrow> n < 2 ^ 31 \<Longrightarrow> ToInt32 n = n"
  unfolding ToInt32_def by (rule signed_take_bit_int_eq_self) simp_all

lemma push8_or: "0 \<le> lo \<Longrightarrow> lo < 256 \<Longrightarrow> push_bit 8 (hi::int) OR lo = hi * 256 + lo"
proof -
  assume a: "0 \<le> lo" "lo < 256"
  then have t: "take_bit 8 lo = lo" by (simp add: take_bit_int_eq_self)
  have "push_bit 8 hi OR lo = concat_bit 8 lo hi"
    by (simp add: concat_bit_def t or.commute)
  also have "\<dots> = take_bit 8 lo + push_bit 8 hi"
    by (simp add: concat_bit_eq)
  finally show ?thesis by (simp add: t push_bit_eq_mult)
qed

lemma shl8_or_bytes:
  "0 \<le> hi \<Longrightarrow> hi < 256 \<Longrightarrow> 0 \<le> lo \<Longrightarrow> lo < 256 \<Longrightarrow> shl8_or (Num hi) (Num lo) = hi * 256 + lo"
  by (simp add: shl8_or_def ToInt32_small push8_or)

lemma and_255: "(n::int) AND 255 = n mod 256"
  using take_bit_eq_mask [of 8 n] by (simp add: take_bit_eq_mod mask_eq_exp_minus_1)

lemma uint_byte_range: "0 \<le> uint (w :: 8 word)" "uint (w :: 8 word) < 256" "uint w \<le> 255"
  using uint_lt2p [of w] by simp_all


subsection \<open>What a pulse leaves unchanged\<close>

lemma callExecute_frame:
  assumes "callExecute f s = (r, s')"
  shows "mmu s' = mmu s" "pendingInterrupt (cpu s') = pendingInterrupt (cpu s)"
    "waitingInterrupts s = [] \<Longrightarrow> waitingInterrupts s' = []"
  using assms
  by (cases f; auto simp: exec_defs Let_def split: if_splits jsval.splits sum.splits option.splits)+

lemma handleAdditionalFetches_frame:
  assumes "handleAdditionalFetches s = (r, s')"
  shows "mmu s' = mmu s" "pendingInterrupt (cpu s') = pendingInterrupt (cpu s)"
    "waitingInterrupts s' = waitingInterrupts s"
  using assms
  by (auto simp: handleAdditionalFetches_def exec_defs Let_def split: if_splits)

lemma pulse_try_frame:
  assumes "pulse_try s = (r, s')"
  shows "mmu s' = mmu s"
    "pendingInterrupt (cpu s') = (if interruptCheckDue s then None else pendingInterrupt (cpu s))"
    "waitingInterrupts s = [] \<Longrightarrow> waitingInterrupts s' = []"
proof -
  show "mmu s' = mmu s"
    using assms
    by (auto simp: pulse_try_def stage_defs exec_defs Let_def
        dest!: handleAdditionalFetches_frame(1) callExecute_frame(1)
        split: if_splits PipelineStep.splits prod.splits sum.splits option.splits jsval.splits)
  show "pendingInterrupt (cpu s') = (if interruptCheckDue s then None else pendingInterrupt (cpu s))"
    using assms
    by (auto simp: pulse_try_def stage_defs exec_defs Let_def interruptCheckDue_def
        dest!: handleAdditionalFetches_frame(2) callExecute_frame(2)
        split: if_splits PipelineStep.splits prod.splits sum.splits option.splits jsval.splits)
  show "waitingInterrupts s = [] \<Longrightarrow> waitingInterrupts s' = []"
    using assms
    by (auto simp: pulse_try_def stage_defs exec_defs Let_def
        dest!: handleAdditionalFetches_frame(3) callExecute_frame(3)
        split: if_splits PipelineStep.splits prod.splits sum.splits option.splits jsval.splits)
qed

lemma Cpu_pulse_frame:
  shows "mmu (Cpu_pulse s) = mmu s"
    "pendingInterrupt (cpu (Cpu_pulse s)) = (if interruptCheckDue s then None else pendingInterrupt (cpu s))"
    "waitingInterrupts s = [] \<Longrightarrow> waitingInterrupts (Cpu_pulse s) = []"
proof -
  obtain r s1 where run: "pulse_try s = (r, s1)"
    by (cases "pulse_try s")
  have eq: "mmu (Cpu_pulse s) = mmu s1" "cpu (Cpu_pulse s) = (cpu s1)\<lparr>errorLog := errorLog (cpu (Cpu_pulse s))\<rparr>"
    "waitingInterrupts (Cpu_pulse s) = waitingInterrupts s1"
    by (cases r; simp add: Cpu_pulse_def run logError_def)+
  show "mmu (Cpu_pulse s) = mmu s"
    using pulse_try_frame(1) [OF run] eq by simp
  show "pendingInterrupt (cpu (Cpu_pulse s)) = (if interruptCheckDue s then None else pendingInterrupt (cpu s))"
    using pulse_try_frame(2) [OF run] by (subst eq(2)) simp
  show "waitingInterrupts s = [] \<Longrightarrow> waitingInterrupts (Cpu_pulse s) = []"
    using pulse_try_frame(3) [OF run] eq by simp
qed

lemma Memory_pulse_frame:
  assumes "Memory_pulse s = Inr s'"
  shows "cpu s' = cpu s" "waitingInterrupts s' = waitingInterrupts s" "running s' = running s"
    "\<not> isLoading (mmu s) \<Longrightarrow> mmu s' = mmu s"
  using assms
  by (auto simp: memory_defs loadProgram_def writeImmediate_def Let_def
      split: if_splits option.splits jsval.splits sum.splits list.splits)

lemma InterruptController_pulse_eq:
  "InterruptController_pulse s =
     s\<lparr>cpu := (cpu s)\<lparr>pendingInterrupt :=
              (case runningInterrupt (waitingInterrupts s) of
                 None \<Rightarrow> pendingInterrupt (cpu s) | Some i \<Rightarrow> Some i)\<rparr>,
       waitingInterrupts := []\<rparr>"
  by (cases "runningInterrupt (waitingInterrupts s)")
     (simp_all add: InterruptController_pulse_def setInterrupt_def)

lemmas tick_defs = Clock_pulse_def Cpu_pulse_def pulse_try_def InterruptController_pulse_eq
  memory_defs stage_defs exec_defs operandAddress_def

lemma Cpu_pulse_idle: "isLoading (mmu s) \<Longrightarrow> Cpu_pulse s = s"
  by (simp add: Cpu_pulse_def pulse_try_def isProgramLoading_def)

lemma ticks_add:
  "ticks (m + n) s = (case ticks m s of Inl e \<Rightarrow> Inl e | Inr s1 \<Rightarrow> ticks n s1)"
  by (induction m arbitrary: s) (auto split: sum.splits)

lemma ticks_Suc_end:
  "ticks (Suc k) s = (case ticks k s of Inl e \<Rightarrow> Inl e | Inr s1 \<Rightarrow> Clock_pulse s1)"
proof -
  have "ticks (Suc k) s = ticks (k + 1) s" by simp
  also have "\<dots> = (case ticks k s of Inl e \<Rightarrow> Inl e | Inr s1 \<Rightarrow> ticks 1 s1)"
    by (rule ticks_add)
  also have "\<dots> = (case ticks k s of Inl e \<Rightarrow> Inl e | Inr s1 \<Rightarrow> Clock_pulse s1)"
    by (auto split: sum.splits)
  finally show ?thesis .
qed

lemma not_loading_stays:
  assumes "\<not> isLoading (mmu s)" "Clock_pulse s = Inr s'"
  shows "\<not> isLoading (mmu s')"
proof -
  from assms(2) obtain s1 where s1: "Memory_pulse (Cpu_pulse s) = Inr s1"
    and s': "s' = InterruptController_pulse s1"
    by (auto simp: Clock_pulse_def split: sum.splits)
  have "\<not> isLoading (mmu (Cpu_pulse s))"
    using assms(1) by (simp add: Cpu_pulse_frame(1))
  from Memory_pulse_frame(4) [OF s1 this] have "mmu s1 = mmu s"
    by (simp add: Cpu_pulse_frame(1))
  with assms(1) show ?thesis by (simp add: s' InterruptController_pulse_eq)
qed

lemma not_loading_ticks:
  "\<not> isLoading (mmu s) \<Longrightarrow> ticks n s = Inr s' \<Longrightarrow> \<not> isLoading (mmu s')"
proof (induction n arbitrary: s)
  case 0
  then show ?case by simp
next
  case (Suc n)
  from Suc.prems(2) obtain s1 where s1: "Clock_pulse s = Inr s1" "ticks n s1 = Inr s'"
    by (auto split: sum.splits)
  from not_loading_stays [OF Suc.prems(1) s1(1)] Suc.IH s1(2) show ?case by blast
qed

section \<open>Memory: a pending write completes before a pending read\<close>

text \<open>
  C6. Whenever \<open>Memory.pulse\<close> completes: a pending write has stored \<open>MDR\<close> in the cell
  addressed by \<open>MAR\<close> (as latched for that write; the cell holds the value as a byte, which
  is \<open>MDR\<close> itself when \<open>MDR\<close> is a byte), and only that cell changed; a pending read has
  set \<open>MDR\<close> to the cell addressed by \<open>MAR\<close> in the memory as it is after the write; when
  both were pending and the MMU is not loading a program, the read is of the address
  just written and \<open>MDR\<close> holds the newly written value. No read stays pending, and a
  write is pending afterwards only when the load hook queued the next program byte.
\<close>

theorem memory_write_before_read:
  assumes "Memory_pulse s = Inr s'"
  shows "(isWritePending (mem s) \<longrightarrow>
            (\<exists>a v. MAR (mem s) = Some a \<and> MDR (mem s) = Num v \<and> 0 \<le> a \<and> a < 65536 \<and>
               MEMORY (mem s') = (MEMORY (mem s))(a := word_of_int v) \<and>
               MEMORY_at (mem s') (MAR (mem s)) = Num (v mod 256) \<and>
               (0 \<le> v \<and> v < 256 \<longrightarrow> MEMORY_at (mem s') (MAR (mem s)) = MDR (mem s)) \<and>
               (isReadPending (mem s) \<and> \<not> isProgramLoading s \<longrightarrow>
                  MAR (mem s') = MAR (mem s) \<and> MDR (mem s') = Num (v mod 256)))) \<and>
         (isReadPending (mem s) \<longrightarrow> MDR (mem s') = MEMORY_at (mem s') (MAR (mem s'))) \<and>
         \<not> isReadPending (mem s') \<and>
         (isWritePending (mem s') \<longrightarrow> isWritePending (mem s) \<and> isProgramLoading s)"
  using assms
  by (auto simp: memory_defs loadProgram_def writeImmediate_def Let_def uint_byte
      split: if_splits option.splits jsval.splits sum.splits list.splits)

theorem memory_write_before_read_witness:
  "\<exists>s'. Memory_pulse bothPendingExample = Inr s' \<and>
        isWritePending (mem bothPendingExample) \<and> isReadPending (mem bothPendingExample) \<and>
        \<not> isProgramLoading bothPendingExample \<and>
        MEMORY (mem bothPendingExample) 16 = 0 \<and>
        MEMORY_at (mem s') (Some 16) = Num 7 \<and> MDR (mem s') = Num 7"
proof -
  have pre: "isWritePending (mem bothPendingExample)" "isReadPending (mem bothPendingExample)"
    "\<not> isProgramLoading bothPendingExample" "MEMORY (mem bothPendingExample) 16 = 0"
    "MAR (mem bothPendingExample) = Some 16" "MDR (mem bothPendingExample) = Num 7"
    by (simp_all add: bothPendingExample_def writeImmediate_def triggerRead_def powerOn_def
        isProgramLoading_def)
  have "case Memory_pulse bothPendingExample of Inl e \<Rightarrow> False | Inr s' \<Rightarrow> True"
    by code_simp
  then obtain s' where run: "Memory_pulse bothPendingExample = Inr s'"
    by (auto split: sum.splits)
  from memory_write_before_read [OF run] pre
  have "MEMORY_at (mem s') (Some 16) = Num 7" "MDR (mem s') = Num 7"
    by auto
  with run pre show ?thesis by blast
qed

section \<open>Interrupt controller: which interrupt is delivered\<close>

lemma scan_invariant:
  "foldl scanStep (- 1, None) ws = (p, r) \<Longrightarrow>
     (r = None \<longrightarrow> p = - 1 \<and> (\<forall>j<length ws. priority (ws ! j) \<le> - 1)) \<and>
     (\<forall>i. r = Some i \<longrightarrow> p = priority i \<and> p > - 1 \<and>
        (\<exists>k<length ws. ws ! k = i \<and> (\<forall>j<length ws. priority (ws ! j) \<le> p)
            \<and> (\<forall>j<k. priority (ws ! j) < p)))"
proof (induction ws arbitrary: p r rule: rev_induct)
  case Nil
  then show ?case by simp
next
  case (snoc x xs)
  obtain p0 r0 where acc: "foldl scanStep (- 1, None) xs = (p0, r0)"
    by (cases "foldl scanStep (- 1, None) xs")
  note IH = snoc.IH [OF acc]
  from snoc.prems acc have step: "scanStep (p0, r0) x = (p, r)" by simp
  show ?case
  proof (cases "priority x > p0")
    case True
    with step have pr: "p = priority x" "r = Some x" by (simp_all add: scanStep_def)
    have all_le: "\<forall>j<length xs. priority (xs ! j) \<le> p0"
    proof (cases r0)
      case None
      with IH have "p0 = - 1" "\<forall>j<length xs. priority (xs ! j) \<le> - 1" by simp_all
      then show ?thesis by simp
    next
      case (Some i)
      with IH show ?thesis by auto
    qed
    have p0ge: "p0 \<ge> - 1"
      using IH by (cases r0) auto
    have "\<exists>k<length (xs @ [x]). (xs @ [x]) ! k = x \<and>
            (\<forall>j<length (xs @ [x]). priority ((xs @ [x]) ! j) \<le> priority x) \<and>
            (\<forall>j<k. priority ((xs @ [x]) ! j) < priority x)"
    proof (intro exI [of _ "length xs"] conjI allI impI)
      show "length xs < length (xs @ [x])" by simp
      show "(xs @ [x]) ! length xs = x" by simp
    next
      fix j assume "j < length (xs @ [x])"
      then show "priority ((xs @ [x]) ! j) \<le> priority x"
        using all_le True by (cases "j < length xs") (auto simp: nth_append less_Suc_eq intro: order.trans less_imp_le)
    next
      fix j assume "j < length xs"
      then show "priority ((xs @ [x]) ! j) < priority x"
        using all_le True by (auto simp: nth_append)
    qed
    with pr True p0ge show ?thesis by auto
  next
    case False
    with step have pr: "p = p0" "r = r0" by (simp_all add: scanStep_def)
    show ?thesis
    proof (cases r0)
      case None
      with IH pr False show ?thesis
        by (auto simp: nth_append less_Suc_eq)
    next
      case (Some i)
      with IH pr obtain k where k: "k < length xs" "xs ! k = i" "p0 = priority i" "p0 > - 1"
        "\<forall>j<length xs. priority (xs ! j) \<le> p0" "\<forall>j<k. priority (xs ! j) < p0"
        by auto
      have "\<exists>k<length (xs @ [x]). (xs @ [x]) ! k = i \<and>
            (\<forall>j<length (xs @ [x]). priority ((xs @ [x]) ! j) \<le> p0) \<and>
            (\<forall>j<k. priority ((xs @ [x]) ! j) < p0)"
      proof (intro exI [of _ k] conjI allI impI)
        show "k < length (xs @ [x])" using k by simp
        show "(xs @ [x]) ! k = i" using k by (simp add: nth_append)
      next
        fix j assume "j < length (xs @ [x])"
        then show "priority ((xs @ [x]) ! j) \<le> p0"
          using k False by (cases "j < length xs") (auto simp: nth_append less_Suc_eq)
      next
        fix j assume "j < k"
        then show "priority ((xs @ [x]) ! j) < p0"
          using k by (auto simp: nth_append)
      qed
      with pr Some k show ?thesis by auto
    qed
  qed
qed

text \<open>
  C8, as the code has it. Every pulse of the controller empties the waiting list. When
  some waiting interrupt has a priority above \<open>-1\<close>, the one latched into the CPU has the
  greatest priority of the list and is the earliest of that priority. When none has (in
  particular when the list is empty), \<open>null\<close> is passed and the CPU is left as it was.
\<close>

theorem interrupt_controller_delivers:
  "waitingInterrupts (InterruptController_pulse s) = [] \<and>
   ((\<exists>j<length (waitingInterrupts s). priority (waitingInterrupts s ! j) > - 1) \<longrightarrow>
      (\<exists>k<length (waitingInterrupts s).
          pendingInterrupt (cpu (InterruptController_pulse s)) = Some (waitingInterrupts s ! k) \<and>
          (\<forall>j<length (waitingInterrupts s).
              priority (waitingInterrupts s ! j) \<le> priority (waitingInterrupts s ! k)) \<and>
          (\<forall>j<k. priority (waitingInterrupts s ! j) < priority (waitingInterrupts s ! k)))) \<and>
   ((\<forall>j<length (waitingInterrupts s). priority (waitingInterrupts s ! j) \<le> - 1) \<longrightarrow>
      cpu (InterruptController_pulse s) = cpu s)"
proof -
  let ?ws = "waitingInterrupts s"
  obtain p r where scan: "foldl scanStep (- 1, None) ?ws = (p, r)"
    by (cases "foldl scanStep (- 1, None) ?ws")
  then have sel: "runningInterrupt ?ws = r"
    by (simp add: runningInterrupt_def)
  note inv = scan_invariant [OF scan]
  show ?thesis
  proof (cases r)
    case None
    with inv have low: "\<forall>j<length ?ws. priority (?ws ! j) \<le> - 1" by simp
    then have "\<not> (\<exists>j<length ?ws. priority (?ws ! j) > - 1)" by fastforce
    moreover have "cpu (InterruptController_pulse s) = cpu s"
      using None sel by (simp add: InterruptController_pulse_def setInterrupt_def)
    moreover have "waitingInterrupts (InterruptController_pulse s) = []"
      by (simp add: InterruptController_pulse_def)
    ultimately show ?thesis by blast
  next
    case (Some i)
    with inv obtain k where k: "k < length ?ws" "?ws ! k = i" "p = priority i" "p > - 1"
      "\<forall>j<length ?ws. priority (?ws ! j) \<le> p" "\<forall>j<k. priority (?ws ! j) < p"
      by auto
    then have high: "\<not> (\<forall>j<length ?ws. priority (?ws ! j) \<le> - 1)" by fastforce
    have "pendingInterrupt (cpu (InterruptController_pulse s)) = Some (?ws ! k)"
      using Some sel k(2) by (simp add: InterruptController_pulse_def setInterrupt_def)
    with k high show ?thesis
      by (auto simp: InterruptController_pulse_def)
  qed
qed

theorem interrupt_controller_delivers_witness:
  "(\<exists>j<length waitingExample. priority (waitingExample ! j) > - 1) \<and>
   pendingInterrupt (cpu (InterruptController_pulse ((powerOn False False)\<lparr>waitingInterrupts := waitingExample\<rparr>)))
     = Some (keyInterrupt 5 0x62) \<and>
   (\<exists>s. waitingInterrupts s = [] \<and> cpu (InterruptController_pulse s) = cpu s)"
proof -
  let ?s = "(powerOn False False)\<lparr>waitingInterrupts := waitingExample\<rparr>"
  have len: "length waitingExample = 4" by (simp add: waitingExample_def)
  have some: "\<exists>j<length (waitingInterrupts ?s). priority (waitingInterrupts ?s ! j) > - 1"
    by (rule exI [of _ 0]) (simp add: waitingExample_def keyInterrupt_def)
  with interrupt_controller_delivers [of ?s]
  obtain k where k: "k < 4"
    "pendingInterrupt (cpu (InterruptController_pulse ?s)) = Some (waitingExample ! k)"
    "\<forall>j<4. priority (waitingExample ! j) \<le> priority (waitingExample ! k)"
    "\<forall>j<k. priority (waitingExample ! j) < priority (waitingExample ! k)"
    by (auto simp: len)
  from k(1) consider "k = 0" | "k = 1" | "k = 2" | "k = 3" by arith
  then have "k = 2"
  proof cases
    case 1
    with k(3) [rule_format, of 2] show ?thesis
      by (simp add: waitingExample_def keyInterrupt_def)
  next
    case 2
    with k(3) [rule_format, of 2] show ?thesis
      by (simp add: waitingExample_def keyInterrupt_def timerInterrupt_def)
  next
    case 3
    then show ?thesis .
  next
    case 4
    with k(4) [rule_format, of 2] show ?thesis
      by (simp add: waitingExample_def keyInterrupt_def)
  qed
  with k(2) have first: "pendingInterrupt (cpu (InterruptController_pulse ?s)) = Some (keyInterrupt 5 0x62)"
    by (simp add: waitingExample_def)
  have "cpu (InterruptController_pulse (powerOn False False)) = cpu (powerOn False False)"
    using interrupt_controller_delivers [of "powerOn False False"] by (simp add: powerOn_def)
  then have second: "\<exists>s. waitingInterrupts s = [] \<and> cpu (InterruptController_pulse s) = cpu s"
    by (intro exI [of _ "powerOn False False"]) (simp add: powerOn_def)
  from some first second show ?thesis by simp
qed

text \<open>
  A single waiting interrupt of priority \<open>-1\<close> has the greatest priority of the list and
  is not delivered: the scan starts at \<open>runningPriority = -1\<close> and compares with \<open>>\<close>.
\<close>

theorem interrupt_controller_counterexample:
  "waitingInterrupts ((powerOn False False)\<lparr>waitingInterrupts := [timerInterrupt]\<rparr>) = [timerInterrupt] \<and>
   pendingInterrupt (cpu (InterruptController_pulse
      ((powerOn False False)\<lparr>waitingInterrupts := [timerInterrupt]\<rparr>))) = None"
  by (simp add: InterruptController_pulse_def runningInterrupt_def scanStep_def setInterrupt_def
      timerInterrupt_def powerOn_def)

section \<open>A latched interrupt stays until the InterruptCheck stage\<close>

lemma runningInterrupt_Nil: "runningInterrupt [] = None"
  by (simp add: runningInterrupt_def)

lemma Clock_pulse_pending:
  assumes "waitingInterrupts s = []" "Clock_pulse s = Inr s'"
  shows "pendingInterrupt (cpu s') = (if interruptCheckDue s then None else pendingInterrupt (cpu s))"
    "waitingInterrupts s' = []"
proof -
  from assms(2) obtain s1 where s1: "Memory_pulse (Cpu_pulse s) = Inr s1"
    and s': "s' = InterruptController_pulse s1"
    by (auto simp: Clock_pulse_def split: sum.splits)
  have "waitingInterrupts s1 = []" "cpu s1 = cpu (Cpu_pulse s)"
    using Memory_pulse_frame(1,2) [OF s1] Cpu_pulse_frame(3) [OF assms(1)] by simp_all
  then show "pendingInterrupt (cpu s') = (if interruptCheckDue s then None else pendingInterrupt (cpu s))"
    "waitingInterrupts s' = []"
    using Cpu_pulse_frame(2) [of s]
    by (simp_all add: s' InterruptController_pulse_def setInterrupt_def runningInterrupt_Nil)
qed

lemma ticks_pending:
  "ticks n s = Inr s' \<Longrightarrow> waitingInterrupts s = [] \<Longrightarrow>
   \<forall>k<n. \<forall>sk. ticks k s = Inr sk \<longrightarrow> \<not> interruptCheckDue sk \<Longrightarrow>
   pendingInterrupt (cpu s') = pendingInterrupt (cpu s) \<and> waitingInterrupts s' = []"
proof (induction n arbitrary: s)
  case 0
  then show ?case by simp
next
  case (Suc n)
  from Suc.prems(1) obtain s1 where s1: "Clock_pulse s = Inr s1" "ticks n s1 = Inr s'"
    by (auto split: sum.splits)
  from Suc.prems(3) have quiet0: "\<not> interruptCheckDue s"
    by (auto dest: spec [of _ 0])
  have quiet: "\<forall>k<n. \<forall>sk. ticks k s1 = Inr sk \<longrightarrow> \<not> interruptCheckDue sk"
  proof (intro allI impI)
    fix k sk assume "k < n" "ticks k s1 = Inr sk"
    with s1 have "Suc k < Suc n" "ticks (Suc k) s = Inr sk" by simp_all
    with Suc.prems(3) show "\<not> interruptCheckDue sk" by blast
  qed
  from Clock_pulse_pending [OF Suc.prems(2) s1(1)] quiet0
  have "pendingInterrupt (cpu s1) = pendingInterrupt (cpu s)" "waitingInterrupts s1 = []" by simp_all
  with Suc.IH [OF s1(2) _ quiet] show ?case by simp
qed

text \<open>
  C10. \<open>setInterrupt(null)\<close> changes nothing. Over any number of ticks that start with an
  empty waiting list and in which the CPU does not run its \<open>InterruptCheck\<close> stage, the
  pending interrupt of the CPU stays what it was; the tick in which the CPU runs
  \<open>InterruptCheck\<close> clears it.
\<close>

theorem pending_interrupt_persists:
  assumes "ticks n s = Inr s'" and "waitingInterrupts s = []"
    and "\<forall>k<n. \<forall>sk. ticks k s = Inr sk \<longrightarrow> \<not> interruptCheckDue sk"
  shows "setInterrupt None s' = s' \<and>
         pendingInterrupt (cpu s') = pendingInterrupt (cpu s) \<and>
         (\<forall>s''. interruptCheckDue s' \<and> Clock_pulse s' = Inr s'' \<longrightarrow> pendingInterrupt (cpu s'') = None)"
  using ticks_pending [OF assms] Clock_pulse_pending(1) [of s']
  by (auto simp: setInterrupt_def)

theorem pending_interrupt_persists_witness:
  "\<exists>s' s''. ticks 5 latchedExample = Inr s' \<and>
      pendingInterrupt (cpu latchedExample) = Some (keyInterrupt 1 0x61) \<and>
      pendingInterrupt (cpu s') = Some (keyInterrupt 1 0x61) \<and>
      interruptCheckDue s' \<and> Clock_pulse s' = Inr s'' \<and> pendingInterrupt (cpu s'') = None"
proof -
  have "case ticks 5 latchedExample of Inl e \<Rightarrow> False
        | Inr s' \<Rightarrow> interruptCheckDue s' \<and> (case Clock_pulse s' of Inl e \<Rightarrow> False | Inr s'' \<Rightarrow> True)"
    by code_simp
  then obtain s' s'' where run: "ticks 5 latchedExample = Inr s'" and due: "interruptCheckDue s'"
    and last: "Clock_pulse s' = Inr s''"
    by (auto split: sum.splits)
  have start: "waitingInterrupts latchedExample = []"
    "pendingInterrupt (cpu latchedExample) = Some (keyInterrupt 1 0x61)"
    by code_simp+
  have q: "\<forall>sk. ticks k latchedExample = Inr sk \<longrightarrow> \<not> interruptCheckDue sk"
    if "k = 0 \<or> k = 1 \<or> k = 2 \<or> k = 3 \<or> k = 4" for k
    using that unfolding all_Inr_case by (elim disjE; hypsubst; code_simp)
  have quiet: "\<forall>k<5. \<forall>sk. ticks k latchedExample = Inr sk \<longrightarrow> \<not> interruptCheckDue sk"
  proof (intro allI impI)
    fix k :: nat and sk
    assume "k < 5" and "ticks k latchedExample = Inr sk"
    moreover from \<open>k < 5\<close> have "k = 0 \<or> k = 1 \<or> k = 2 \<or> k = 3 \<or> k = 4" by arith
    ultimately show "\<not> interruptCheckDue sk" using q by blast
  qed
  from pending_interrupt_persists [OF run start(1) quiet] start(2) due last
  have "pendingInterrupt (cpu s') = Some (keyInterrupt 1 0x61)" "pendingInterrupt (cpu s'') = None"
    by auto
  with run start(2) due last show ?thesis by blast
qed

section \<open>The Writeback gate\<close>

text \<open>
  C1, evaluated on the program \<open>LDA #$FF; STA $0010; INC $0010; BRK\<close>. After 34 ticks
  the CPU is in \<open>Execute\<close> of \<open>INC\<close> and the cell holds \<open>0xFF\<close>; the next tick ends the
  micro-operation with both \<open>writeAddress\<close> and \<open>writeValue\<close> set (16 and 0), and the step
  is \<open>InterruptCheck\<close>, not \<open>Writeback\<close>.
\<close>

theorem writeback_gate_skips_zero:
  "(case ticks 34 (runProgram [0xA9, 0xFF, 0x8D, 0x10, 0x00, 0xEE, 0x10, 0x00, 0x00] (powerOn False False)) of
      Inl e \<Rightarrow> False
    | Inr s \<Rightarrow> step (cpu s) = Execute \<and> executeFunction (cpu s) = Some ExecINC \<and>
        MEMORY_at (mem s) (Some 16) = Num 255) \<and>
   (case ticks 35 (runProgram [0xA9, 0xFF, 0x8D, 0x10, 0x00, 0xEE, 0x10, 0x00, 0x00] (powerOn False False)) of
      Inl e \<Rightarrow> False
    | Inr s \<Rightarrow> writeAddress (cpu s) = Some 16 \<and> writeValue (cpu s) = Some 0 \<and>
        step (cpu s) = InterruptCheck)"
  by code_simp

section \<open>Errors inside a CPU tick\<close>

text \<open>
  The program of the single byte \<open>0x02\<close>, which is no opcode, with debug logging on: the
  fourth tick decodes it; the error is logged and the step is still \<open>Decode\<close>, and so it
  is three ticks later, with four errors logged.
\<close>

theorem unknown_opcode_counterexample:
  "(case ticks 4 (runProgram [0x02] (powerOn False True)) of
      Inl e \<Rightarrow> False
    | Inr s \<Rightarrow> step (cpu s) = Decode \<and> errorLog (cpu s) = [(''CPU'', UnknownOpcode 2)]) \<and>
   (case ticks 7 (runProgram [0x02] (powerOn False True)) of
      Inl e \<Rightarrow> False
    | Inr s \<Rightarrow> step (cpu s) = Decode \<and> pcRegister (cpu s) = 1 \<and>
        errorLog (cpu s) = [(''CPU'', UnknownOpcode 2), (''CPU'', UnknownOpcode 2),
                             (''CPU'', UnknownOpcode 2), (''CPU'', UnknownOpcode 2)])"
  by code_simp

lemma pulse_try_unknown:
  assumes "unknownOpcodeAt n s"
  shows "pulse_try s = (Inl (UnknownOpcode n),
           s\<lparr>cpu := (cpu s)\<lparr>currentCyclePulseCount := currentCyclePulseCount (cpu s) + 1\<rparr>\<rparr>)"
  using assms by (simp add: unknownOpcodeAt_def pulse_try_def stage_defs Let_def)

lemma tick_unknown:
  assumes "unknownOpcodeAt n s" "Clock_pulse s = Inr s'"
  shows "unknownOpcodeAt n s'" "pcRegister (cpu s') = pcRegister (cpu s)"
    "debug (cpu s') = debug (cpu s)"
    "errorLog (cpu s') = errorLog (cpu s) @ (if debug (cpu s) then [(''CPU'', UnknownOpcode n)] else [])"
proof -
  let ?s1 = "s\<lparr>cpu := (cpu s)\<lparr>currentCyclePulseCount := currentCyclePulseCount (cpu s) + 1\<rparr>\<rparr>"
  have cp: "Cpu_pulse s = logError ''CPU'' (UnknownOpcode n) ?s1"
    by (simp add: Cpu_pulse_def pulse_try_unknown [OF assms(1)])
  from assms(2) obtain s2 where s2: "Memory_pulse (Cpu_pulse s) = Inr s2"
    and s': "s' = InterruptController_pulse s2"
    by (auto simp: Clock_pulse_def split: sum.splits)
  have nl: "\<not> isLoading (mmu (Cpu_pulse s))"
    using assms(1) by (simp add: cp logError_def unknownOpcodeAt_def isProgramLoading_def)
  note fr = Memory_pulse_frame [OF s2]
  have c: "cpu s2 = cpu (Cpu_pulse s)" "running s2 = running (Cpu_pulse s)" "mmu s2 = mmu (Cpu_pulse s)"
    using fr nl by simp_all
  show "unknownOpcodeAt n s'"
    using assms(1) by (simp add: s' InterruptController_pulse_eq unknownOpcodeAt_def c cp logError_def
        isProgramLoading_def)
  show "pcRegister (cpu s') = pcRegister (cpu s)"
    by (simp add: s' InterruptController_pulse_eq c cp logError_def)
  show "debug (cpu s') = debug (cpu s)"
    by (simp add: s' InterruptController_pulse_eq c cp logError_def)
  show "errorLog (cpu s') = errorLog (cpu s) @ (if debug (cpu s) then [(''CPU'', UnknownOpcode n)] else [])"
    by (simp add: s' InterruptController_pulse_eq c cp logError_def)
qed

lemma ticks_unknown:
  "unknownOpcodeAt n s \<Longrightarrow> ticks k s = Inr s' \<Longrightarrow>
   unknownOpcodeAt n s' \<and> pcRegister (cpu s') = pcRegister (cpu s) \<and>
   debug (cpu s') = debug (cpu s) \<and>
   errorLog (cpu s') = errorLog (cpu s) @
      (if debug (cpu s) then replicate k (''CPU'', UnknownOpcode n) else [])"
proof (induction k arbitrary: s)
  case 0
  then show ?case by simp
next
  case (Suc k)
  from Suc.prems(2) obtain s1 where s1: "Clock_pulse s = Inr s1" "ticks k s1 = Inr s'"
    by (auto split: sum.splits)
  note t = tick_unknown [OF Suc.prems(1) s1(1)]
  from Suc.IH [OF t(1) s1(2)] t(2,3,4) show ?case
    by (auto simp: replicate_append_same)
qed

text \<open>
  C2, as the code has it. Whenever the \<open>try\<close> block of \<open>Cpu.pulse\<close> throws, the pulse
  returns the state reached at the throw with the error appended to the log (when debug
  logging is on): nothing escapes and nothing else is changed, so the pipeline is not
  reset. For an opcode \<open>n\<close> missing from the decode table, the \<open>Decode\<close> stage throws
  \<open>UnknownOpcode n\<close> with the step still \<open>Decode\<close>; after any number \<open>k\<close> of further ticks
  the step is \<open>Decode\<close>, opcode and program counter are unchanged, and the same error has
  been logged \<open>k\<close> times: execution does not continue with the next instruction.
\<close>

theorem cpu_error_logged_pipeline_not_reset:
  "(\<forall>e s1. pulse_try s = (Inl e, s1) \<longrightarrow> Cpu_pulse s = logError ''CPU'' e s1) \<and>
   (unknownOpcodeAt n s \<longrightarrow>
      (\<exists>s1. pulse_try s = (Inl (UnknownOpcode n), s1) \<and> step (cpu s1) = Decode) \<and>
      (\<forall>k s'. ticks k s = Inr s' \<longrightarrow>
         step (cpu s') = Decode \<and> opcode (cpu s') = Num n \<and>
         pcRegister (cpu s') = pcRegister (cpu s) \<and>
         errorLog (cpu s') = errorLog (cpu s) @
           (if debug (cpu s) then replicate k (''CPU'', UnknownOpcode n) else [])))"
proof -
  have caught: "\<forall>e s1. pulse_try s = (Inl e, s1) \<longrightarrow> Cpu_pulse s = logError ''CPU'' e s1"
    by (simp add: Cpu_pulse_def)
  have stuck: "(\<exists>s1. pulse_try s = (Inl (UnknownOpcode n), s1) \<and> step (cpu s1) = Decode) \<and>
      (\<forall>k s'. ticks k s = Inr s' \<longrightarrow>
         step (cpu s') = Decode \<and> opcode (cpu s') = Num n \<and>
         pcRegister (cpu s') = pcRegister (cpu s) \<and>
         errorLog (cpu s') = errorLog (cpu s) @
           (if debug (cpu s) then replicate k (''CPU'', UnknownOpcode n) else []))"
    if u: "unknownOpcodeAt n s"
  proof
    show "\<exists>s1. pulse_try s = (Inl (UnknownOpcode n), s1) \<and> step (cpu s1) = Decode"
      using u by (simp add: pulse_try_unknown) (simp add: unknownOpcodeAt_def)
    show "\<forall>k s'. ticks k s = Inr s' \<longrightarrow>
         step (cpu s') = Decode \<and> opcode (cpu s') = Num n \<and>
         pcRegister (cpu s') = pcRegister (cpu s) \<and>
         errorLog (cpu s') = errorLog (cpu s) @
           (if debug (cpu s) then replicate k (''CPU'', UnknownOpcode n) else [])"
      using ticks_unknown [OF u] by (simp add: unknownOpcodeAt_def)
  qed
  from caught stuck show ?thesis by blast
qed

theorem cpu_error_logged_pipeline_not_reset_witness:
  "\<exists>s s1 s'. ticks 3 (runProgram [0x02] (powerOn False True)) = Inr s \<and> unknownOpcodeAt 2 s \<and>
      pulse_try s = (Inl (UnknownOpcode 2), s1) \<and> Cpu_pulse s = logError ''CPU'' (UnknownOpcode 2) s1 \<and>
      ticks 5 s = Inr s' \<and> step (cpu s') = Decode \<and>
      errorLog (cpu s') = replicate 5 (''CPU'', UnknownOpcode 2)"
proof -
  have "case ticks 3 (runProgram [0x02] (powerOn False True)) of
          Inl e \<Rightarrow> False
        | Inr s \<Rightarrow> unknownOpcodeAt 2 s \<and> debug (cpu s) \<and> errorLog (cpu s) = [] \<and>
            (case ticks 5 s of Inl e \<Rightarrow> False | Inr s' \<Rightarrow> True)"
    by code_simp
  then obtain s s' where s: "ticks 3 (runProgram [0x02] (powerOn False True)) = Inr s"
    "unknownOpcodeAt 2 s" "debug (cpu s)" "errorLog (cpu s) = []" "ticks 5 s = Inr s'"
    by (auto split: sum.splits)
  note main = cpu_error_logged_pipeline_not_reset [of s 2]
  from main s(2) obtain s1 where s1: "pulse_try s = (Inl (UnknownOpcode 2), s1)" by blast
  with main have c: "Cpu_pulse s = logError ''CPU'' (UnknownOpcode 2) s1" by blast
  from main s(2,5) have "step (cpu s') = Decode"
    "errorLog (cpu s') = errorLog (cpu s) @ (if debug (cpu s) then replicate 5 (''CPU'', UnknownOpcode 2) else [])"
    by blast+
  with s(3,4) have "step (cpu s') = Decode" "errorLog (cpu s') = replicate 5 (''CPU'', UnknownOpcode 2)"
    by simp_all
  with s s1 c show ?thesis by blast
qed

section \<open>Range of the program counter\<close>

text \<open>
  C3, evaluated on \<open>LDA #$EA; STA $FFFF; BNE -8\<close>: the branch wraps the program counter
  to \<open>0xFFFF\<close> (31 ticks), the fetch of the \<open>NOP\<close> stored there increments it to \<open>65536\<close>
  (33 ticks), and the next fetch reads outside the memory, which ends the run (37 ticks).
\<close>

theorem program_counter_leaves_range:
  "(case ticks 31 (runProgram [0xA9, 0xEA, 0x8D, 0xFF, 0xFF, 0xD0, 0xF8] (powerOn False False)) of
      Inl e \<Rightarrow> False
    | Inr s \<Rightarrow> pcRegister (cpu s) = 65535 \<and> step (cpu s) = Fetch) \<and>
   (case ticks 33 (runProgram [0xA9, 0xEA, 0x8D, 0xFF, 0xFF, 0xD0, 0xF8] (powerOn False False)) of
      Inl e \<Rightarrow> False
    | Inr s \<Rightarrow> pcRegister (cpu s) = 65536 \<and> opcode (cpu s) = Num 0xEA \<and> step (cpu s) = Decode) \<and>
   (case ticks 37 (runProgram [0xA9, 0xEA, 0x8D, 0xFF, 0xFF, 0xD0, 0xF8] (powerOn False False)) of
      Inl e \<Rightarrow> e = TypeError
    | Inr s \<Rightarrow> False)"
  by code_simp

section \<open>Program load\<close>

lemma loading_init:
  "p \<noteq> [] \<Longrightarrow> loading (\<not> isReadPending (mem s)) p 0 (setProgram p s)"
  by (cases p) (auto simp: loading_def setProgram_def loadProgram_def MMU_reset_def init_def
      writeImmediate_def Let_def)

lemma loading_step:
  assumes "loading c p k s" "Suc k < length p" "k < 65536"
  shows "\<exists>s1. Clock_pulse s = Inr s1 \<and> loading c p (Suc k) s1"
proof -
  from assms(2) have dr: "drop (Suc k) p = p ! Suc k # drop (Suc (Suc k)) p"
    by (simp add: Cons_nth_drop_Suc)
  obtain v where v: "MDR (mem s) = Num v"
    using assms(1) by (cases "MDR (mem s)") (auto simp: loading_def)
  have rng: "int k < 65536" using assms(3) by simp
  have rd: "isReadPending (mem s) \<longrightarrow> k = 0"
    using assms(1) by (simp add: loading_def)
  show ?thesis
    using assms(1) dr v rng rd
    by (auto simp: loading_def Cpu_pulse_idle Clock_pulse_def InterruptController_pulse_eq
        memory_defs loadProgram_def writeImmediate_def Let_def nat_add_distrib)
qed

lemma loading_final:
  assumes "loading c p k s" "Suc k = length p" "k < 65536"
  shows "\<exists>s1. Clock_pulse s = Inr s1 \<and> \<not> isLoading (mmu s1) \<and>
           (c \<longrightarrow> (\<forall>a. MEMORY (mem s1) a =
                        (if 0 \<le> a \<and> a < int (Suc k) then word_of_int (p ! nat a) else 0)))"
proof -
  from assms(2) have dr: "drop (Suc k) p = []" by simp
  obtain v where v: "MDR (mem s) = Num v"
    using assms(1) by (cases "MDR (mem s)") (auto simp: loading_def)
  have rng: "int k < 65536" using assms(3) by simp
  show ?thesis
    using assms(1) dr v rng
    by (auto simp: loading_def Cpu_pulse_idle Clock_pulse_def InterruptController_pulse_eq
        memory_defs loadProgram_def writeImmediate_def Let_def)
qed

lemma loading_crash:
  assumes "loading c p k s" "65536 \<le> k"
  shows "Clock_pulse s = Inl TypeError"
proof -
  obtain v where v: "MDR (mem s) = Num v"
    using assms(1) by (cases "MDR (mem s)") (auto simp: loading_def)
  have rng: "\<not> int k < 65536" using assms(2) by simp
  show ?thesis
    using assms(1) v rng
    by (auto simp: loading_def Cpu_pulse_idle Clock_pulse_def memory_defs)
qed

lemma loading_run:
  "k < length p \<Longrightarrow> k \<le> 65536 \<Longrightarrow>
   \<exists>s'. ticks k (setProgram p s) = Inr s' \<and> loading (\<not> isReadPending (mem s)) p k s'"
proof (induction k)
  case 0
  then have "p \<noteq> []" by auto
  from loading_init [OF this, of s] show ?case by simp
next
  case (Suc k)
  then obtain s1 where s1: "ticks k (setProgram p s) = Inr s1"
    "loading (\<not> isReadPending (mem s)) p k s1" by auto
  from Suc.prems(2) have "k < 65536" by simp
  from loading_step [OF s1(2) Suc.prems(1) this]
  obtain s2 where "Clock_pulse s1 = Inr s2" "loading (\<not> isReadPending (mem s)) p (Suc k) s2"
    by blast
  with s1(1) show ?case by (simp only: ticks_Suc_end) simp
qed

lemma setProgram_Nil:
  "\<not> isLoading (mmu (setProgram [] s))" "MEMORY (mem (setProgram [] s)) a = 0"
  by (simp_all add: setProgram_def loadProgram_def MMU_reset_def init_def)

lemma load_complete:
  assumes "length p \<le> 65536"
  shows "\<exists>s'. ticks (length p) (setProgram p s) = Inr s' \<and> \<not> isLoading (mmu s') \<and>
           (\<not> isReadPending (mem s) \<longrightarrow>
              (\<forall>a. MEMORY (mem s') a =
                 (if 0 \<le> a \<and> a < int (length p) then word_of_int (p ! nat a) else 0)))"
proof (cases p rule: rev_cases)
  case Nil
  have "ticks (length p) (setProgram p s) = Inr (setProgram [] s)"
    by (simp add: Nil)
  moreover have "\<forall>a. MEMORY (mem (setProgram [] s)) a =
      (if 0 \<le> a \<and> a < int (length p) then word_of_int (p ! nat a) else 0)"
    by (auto simp: Nil setProgram_Nil)
  ultimately show ?thesis using setProgram_Nil(1) [of s] by blast
next
  case (snoc xs x)
  then have k: "length xs < length p" "Suc (length xs) = length p" by simp_all
  from k assms have b: "length xs \<le> 65536" "length xs < 65536" by simp_all
  from loading_run [OF k(1) b(1), of s]
  obtain s1 where s1: "ticks (length xs) (setProgram p s) = Inr s1"
    "loading (\<not> isReadPending (mem s)) p (length xs) s1" by blast
  from loading_final [OF s1(2) k(2) b(2)]
  obtain s2 where s2: "Clock_pulse s1 = Inr s2" "\<not> isLoading (mmu s2)"
    "\<not> isReadPending (mem s) \<longrightarrow> (\<forall>a. MEMORY (mem s2) a =
        (if 0 \<le> a \<and> a < int (Suc (length xs)) then word_of_int (p ! nat a) else 0))"
    by blast
  have "ticks (length p) (setProgram p s) = Inr s2"
    using s1(1) s2(1) k(2) [symmetric] by (simp only: ticks_Suc_end) simp
  with s2 k(2) show ?thesis by auto
qed

text \<open>
  C5, as the code has it. For a program \<open>p\<close> of at most 65536 bytes, the first
  \<open>length p\<close> ticks after \<open>setProgram p\<close> complete, and after \<open>k \<le> length p\<close> of them
  \<open>isProgramLoading\<close> holds exactly when \<open>k < length p\<close>: it is true at the start of each
  of the ticks \<open>1..length p\<close> and, for the empty program, false at once. When no read was
  pending at the call, the cells \<open>0..k-1\<close> then hold the first \<open>k\<close> bytes and the other
  cells are 0: every tick commits one byte, at consecutive addresses from 0. After
  \<open>length p\<close> or more ticks \<open>isProgramLoading\<close> is false.
\<close>

theorem program_load_takes_length_ticks:
  assumes "length p \<le> 65536"
  shows "(\<forall>k\<le>length p. \<exists>s'. ticks k (setProgram p s) = Inr s' \<and>
            (isProgramLoading s' \<longleftrightarrow> k < length p) \<and>
            (\<not> isReadPending (mem s) \<longrightarrow>
               (\<forall>a. 0 \<le> a \<and> a < 65536 \<longrightarrow>
                  MEMORY_at (mem s') (Some a) =
                    (if a < int k then Num (p ! nat a mod 256) else Num 0)))) \<and>
         (\<forall>k s'. length p \<le> k \<and> ticks k (setProgram p s) = Inr s' \<longrightarrow> \<not> isProgramLoading s')"
proof (intro conjI allI impI)
  fix k assume kle: "k \<le> length p"
  show "\<exists>s'. ticks k (setProgram p s) = Inr s' \<and>
            (isProgramLoading s' \<longleftrightarrow> k < length p) \<and>
            (\<not> isReadPending (mem s) \<longrightarrow>
               (\<forall>a. 0 \<le> a \<and> a < 65536 \<longrightarrow>
                  MEMORY_at (mem s') (Some a) =
                    (if a < int k then Num (p ! nat a mod 256) else Num 0)))"
  proof (cases "k < length p")
    case True
    with assms have "k \<le> 65536" by simp
    from loading_run [OF True this, of s]
    obtain s' where s': "ticks k (setProgram p s) = Inr s'"
      "loading (\<not> isReadPending (mem s)) p k s'" by blast
    then show ?thesis
      using True by (intro exI [of _ s']) (auto simp: loading_def isProgramLoading_def MEMORY_at_def uint_byte)
  next
    case False
    with kle have k: "k = length p" by simp
    from load_complete [OF assms, of s] show ?thesis
      by (auto simp: k isProgramLoading_def MEMORY_at_def uint_byte)
  qed
next
  fix k s' assume a: "length p \<le> k \<and> ticks k (setProgram p s) = Inr s'"
  then obtain m where m: "k = length p + m" by (auto simp: le_iff_add)
  from load_complete [OF assms, of s]
  obtain s1 where s1: "ticks (length p) (setProgram p s) = Inr s1" "\<not> isLoading (mmu s1)" by blast
  from a have "ticks m s1 = Inr s'"
    by (simp add: m ticks_add s1(1))
  from not_loading_ticks [OF s1(2) this] show "\<not> isProgramLoading s'"
    by (simp add: isProgramLoading_def)
qed

theorem program_load_takes_length_ticks_witness:
  "length [0xA9, 0x05, 0x00 :: int] \<le> 65536 \<and>
   (\<exists>s'. ticks 2 (setProgram [0xA9, 0x05, 0x00] (powerOn False False)) = Inr s' \<and>
         isProgramLoading s' \<and> MEMORY_at (mem s') (Some 0) = Num 0xA9 \<and>
         MEMORY_at (mem s') (Some 1) = Num 0x05 \<and> MEMORY_at (mem s') (Some 2) = Num 0) \<and>
   (\<exists>s'. ticks 3 (setProgram [0xA9, 0x05, 0x00] (powerOn False False)) = Inr s' \<and>
         \<not> isProgramLoading s')"
proof -
  let ?p = "[0xA9, 0x05, 0x00 :: int]"
  let ?s = "powerOn False False"
  have len: "length ?p \<le> 65536" by simp
  have clean: "\<not> isReadPending (mem ?s)" by (simp add: powerOn_def)
  note main = program_load_takes_length_ticks [OF len, of ?s]
  from main have "\<exists>s'. ticks 2 (setProgram ?p ?s) = Inr s' \<and> (isProgramLoading s' \<longleftrightarrow> 2 < length ?p) \<and>
      (\<not> isReadPending (mem ?s) \<longrightarrow> (\<forall>a. 0 \<le> a \<and> a < 65536 \<longrightarrow>
          MEMORY_at (mem s') (Some a) = (if a < int 2 then Num (?p ! nat a mod 256) else Num 0)))"
    by (elim conjE allE [of _ "2::nat"]) simp
  then obtain s2 where s2: "ticks 2 (setProgram ?p ?s) = Inr s2" "isProgramLoading s2"
    "\<forall>a. 0 \<le> a \<and> a < 65536 \<longrightarrow>
          MEMORY_at (mem s2) (Some a) = (if a < int 2 then Num (?p ! nat a mod 256) else Num 0)"
    using clean by auto
  have cells: "MEMORY_at (mem s2) (Some 0) = Num 0xA9" "MEMORY_at (mem s2) (Some 1) = Num 0x05"
    "MEMORY_at (mem s2) (Some 2) = Num 0"
    using s2(3) [rule_format, of 0] s2(3) [rule_format, of 1] s2(3) [rule_format, of 2] by simp_all
  from main have "\<exists>s'. ticks 3 (setProgram ?p ?s) = Inr s' \<and> (isProgramLoading s' \<longleftrightarrow> 3 < length ?p)"
    by (elim conjE allE [of _ "3::nat"]) auto
  then obtain s3 where s3: "ticks 3 (setProgram ?p ?s) = Inr s3" "\<not> isProgramLoading s3"
    by auto
  from len s2(1,2) cells s3 show ?thesis by blast
qed

text \<open>
  A program of 65537 bytes: after 65536 ticks the last byte is latched for address
  \<open>65536\<close> and \<open>isProgramLoading\<close> is still true; in the next tick \<open>executeWrite\<close>
  reads the cell back for its log line, gets \<open>undefined\<close>, and the \<open>TypeError\<close> ends
  the run. \<open>isProgramLoading\<close> never becomes false.
\<close>

theorem program_load_counterexample:
  "length longProgram = 65537 \<and>
   (case ticks 65536 (setProgram longProgram (powerOn False False)) of
      Inl e \<Rightarrow> False
    | Inr s \<Rightarrow> isProgramLoading s) \<and>
   (case ticks 65537 (setProgram longProgram (powerOn False False)) of
      Inl e \<Rightarrow> e = TypeError
    | Inr s \<Rightarrow> False)"
proof -
  let ?s0 = "setProgram longProgram (powerOn False False)"
  have len: "length longProgram = 65537" by (simp add: longProgram_def)
  have k: "(65536::nat) < length longProgram" "(65536::nat) \<le> 65536" by (simp_all add: len)
  from loading_run [OF k, of "powerOn False False"]
  obtain s1 where s1: "ticks 65536 ?s0 = Inr s1"
    "loading (\<not> isReadPending (mem (powerOn False False))) longProgram 65536 s1" by blast
  from s1(2) have ld: "isProgramLoading s1" by (simp add: loading_def isProgramLoading_def)
  have crash: "Clock_pulse s1 = Inl TypeError"
    by (rule loading_crash [OF s1(2)]) simp
  have e: "(65537::nat) = Suc 65536" by simp
  have "ticks 65537 ?s0 = (case ticks 65536 ?s0 of Inl e \<Rightarrow> Inl e | Inr s \<Rightarrow> Clock_pulse s)"
    by (subst e) (rule ticks_Suc_end)
  then have t: "ticks 65537 ?s0 = Inl TypeError"
    by (simp only: s1(1) crash sum.case)
  show ?thesis
    by (simp only: len s1(1) t sum.case ld)
qed

section \<open>ADC\<close>

lemma ADC_tick1:
  assumes "running s" "\<not> isLoading (mmu s)" "\<not> fetchCount (cpu s) > 0"
    "step (cpu s) = Execute" "executeFunction (cpu s) = Some ExecADC"
    "currentCyclePulseCount (cpu s) = 0" "opcode (cpu s) = Num op"
    "operand (cpu s) 0 = Num lo" "operand (cpu s) 1 = Num hi"
    "0 \<le> lo" "lo < 256" "0 \<le> hi" "hi < 256"
    "\<not> isWritePending (mem s)"
  shows "\<exists>s1. Clock_pulse s = Inr s1 \<and>
      cpu s1 = (cpu s)\<lparr>currentCyclePulseCount := 1, pendingInterrupt := pendingInterrupt (cpu s1)\<rparr> \<and>
      running s1 \<and> mmu s1 = mmu s \<and> MEMORY (mem s1) = MEMORY (mem s) \<and>
      MDR (mem s1) = Num (uint (MEMORY (mem s) (hi * 256 + lo))) \<and>
      MAR (mem s1) = Some (hi * 256 + lo) \<and>
      \<not> isWritePending (mem s1) \<and> \<not> isReadPending (mem s1)"
  using assms
  by (simp add: tick_defs shl8_or_bytes Let_def)

lemma ADC_tick2:
  assumes "running s" "\<not> isLoading (mmu s)" "\<not> fetchCount (cpu s) > 0"
    "step (cpu s) = Execute" "executeFunction (cpu s) = Some ExecADC"
    "currentCyclePulseCount (cpu s) = 1" "opcode (cpu s) = Num op"
    "operand (cpu s) 0 = Num lo" "operand (cpu s) 1 = Num hi"
    "MDR (mem s) = Num m" "MAR (mem s) = Some a"
    "\<not> isWritePending (mem s)" "\<not> isReadPending (mem s)"
  shows "\<exists>s2. Clock_pulse s = Inr s2 \<and>
      aRegister (cpu s2) = (aRegister (cpu s) + m + (if useCarry (cpu s) \<and> cRegister (cpu s) then 1 else 0)) AND 0xFF \<and>
      cRegister (cpu s2) = (aRegister (cpu s) + m + (if useCarry (cpu s) \<and> cRegister (cpu s) then 1 else 0) > 0xFF) \<and>
      zRegister (cpu s2) = zRegister (cpu s) \<and>
      xRegister (cpu s2) = xRegister (cpu s) \<and> yRegister (cpu s2) = yRegister (cpu s) \<and>
      pcRegister (cpu s2) = pcRegister (cpu s) \<and>
      MEMORY (mem s2) = MEMORY (mem s) \<and>
      step (cpu s2) = (if truthy (writeAddress (cpu s)) \<and> truthy (writeValue (cpu s))
                       then Writeback else InterruptCheck)"
  using assms
  by (simp add: tick_defs Let_def)

text \<open>
  C7. Let the CPU be at the start of \<open>Execute\<close> of a decoded \<open>ADC\<close> (opcode \<open>0x6D\<close>) with
  the operand bytes \<open>lo\<close>, \<open>hi\<close>, and no write pending in the memory. Two ticks later, with
  \<open>sum = A + M[hi * 256 + lo] + (1 if useCarry and C, else 0)\<close>: A is \<open>sum & 0xFF\<close>, C is
  \<open>sum > 0xFF\<close>, and Z, X, Y, the program counter and the memory are unchanged.
\<close>

theorem ADC_adds_with_carry:
  assumes "running s" "\<not> isProgramLoading s" "\<not> fetchCount (cpu s) > 0"
    "step (cpu s) = Execute" "executeFunction (cpu s) = Some ExecADC"
    "currentCyclePulseCount (cpu s) = 0" "opcode (cpu s) = Num 0x6D"
    "operand (cpu s) 0 = Num lo" "operand (cpu s) 1 = Num hi"
    "0 \<le> lo" "lo < 256" "0 \<le> hi" "hi < 256"
    "\<not> isWritePending (mem s)"
  shows "\<exists>s'. ticks 2 s = Inr s' \<and>
      aRegister (cpu s') =
        (aRegister (cpu s) + uint (MEMORY (mem s) (hi * 256 + lo))
           + (if useCarry (cpu s) \<and> cRegister (cpu s) then 1 else 0)) AND 0xFF \<and>
      cRegister (cpu s') =
        (aRegister (cpu s) + uint (MEMORY (mem s) (hi * 256 + lo))
           + (if useCarry (cpu s) \<and> cRegister (cpu s) then 1 else 0) > 0xFF) \<and>
      zRegister (cpu s') = zRegister (cpu s) \<and>
      xRegister (cpu s') = xRegister (cpu s) \<and> yRegister (cpu s') = yRegister (cpu s) \<and>
      pcRegister (cpu s') = pcRegister (cpu s) \<and>
      MEMORY (mem s') = MEMORY (mem s)"
proof -
  from assms(2) have nl: "\<not> isLoading (mmu s)" by (simp add: isProgramLoading_def)
  from ADC_tick1 [OF assms(1) nl assms(3-14)]
  obtain s1 where s1: "Clock_pulse s = Inr s1"
    "cpu s1 = (cpu s)\<lparr>currentCyclePulseCount := 1, pendingInterrupt := pendingInterrupt (cpu s1)\<rparr>"
    "running s1" "mmu s1 = mmu s" "MEMORY (mem s1) = MEMORY (mem s)"
    "MDR (mem s1) = Num (uint (MEMORY (mem s) (hi * 256 + lo)))"
    "MAR (mem s1) = Some (hi * 256 + lo)"
    "\<not> isWritePending (mem s1)" "\<not> isReadPending (mem s1)"
    by blast
  have c1: "aRegister (cpu s1) = aRegister (cpu s)" "cRegister (cpu s1) = cRegister (cpu s)"
    "zRegister (cpu s1) = zRegister (cpu s)" "useCarry (cpu s1) = useCarry (cpu s)"
    "xRegister (cpu s1) = xRegister (cpu s)" "yRegister (cpu s1) = yRegister (cpu s)"
    "pcRegister (cpu s1) = pcRegister (cpu s)"
    "fetchCount (cpu s1) = fetchCount (cpu s)" "step (cpu s1) = Execute"
    "executeFunction (cpu s1) = Some ExecADC" "currentCyclePulseCount (cpu s1) = 1"
    "opcode (cpu s1) = Num 0x6D" "operand (cpu s1) 0 = Num lo" "operand (cpu s1) 1 = Num hi"
    by (subst s1(2), simp add: assms)+
  have pre: "\<not> isLoading (mmu s1)" "\<not> fetchCount (cpu s1) > 0"
    using s1(4) nl c1(8) assms(3) by simp_all
  from ADC_tick2 [OF s1(3) pre c1(9-14) s1(6,7,8,9)]
  obtain s2 where s2: "Clock_pulse s1 = Inr s2"
    "aRegister (cpu s2) = (aRegister (cpu s1) + uint (MEMORY (mem s) (hi * 256 + lo))
        + (if useCarry (cpu s1) \<and> cRegister (cpu s1) then 1 else 0)) AND 0xFF"
    "cRegister (cpu s2) = (aRegister (cpu s1) + uint (MEMORY (mem s) (hi * 256 + lo))
        + (if useCarry (cpu s1) \<and> cRegister (cpu s1) then 1 else 0) > 0xFF)"
    "zRegister (cpu s2) = zRegister (cpu s1)"
    "xRegister (cpu s2) = xRegister (cpu s1)" "yRegister (cpu s2) = yRegister (cpu s1)"
    "pcRegister (cpu s2) = pcRegister (cpu s1)"
    "MEMORY (mem s2) = MEMORY (mem s1)"
    by blast
  have "ticks 2 s = Inr s2"
    using s1(1) s2(1) by (simp add: numeral_2_eq_2)
  with s2 c1 s1(5) show ?thesis by auto
qed

theorem ADC_adds_with_carry_witness:
  "\<exists>s s'. ticks 42 (runProgram [0xA9, 0xFF, 0x8D, 0x10, 0x00, 0xA9, 0x02, 0x6D, 0x10, 0x00, 0x00]
                      (powerOn False False)) = Inr s \<and>
      step (cpu s) = Execute \<and> executeFunction (cpu s) = Some ExecADC \<and>
      opcode (cpu s) = Num 0x6D \<and> aRegister (cpu s) = 2 \<and> MEMORY (mem s) 16 = 255 \<and>
      ticks 2 s = Inr s' \<and> aRegister (cpu s') = 1 \<and> cRegister (cpu s') \<and> \<not> zRegister (cpu s')"
proof -
  have "case ticks 42 (runProgram [0xA9, 0xFF, 0x8D, 0x10, 0x00, 0xA9, 0x02, 0x6D, 0x10, 0x00, 0x00]
                      (powerOn False False)) of
          Inl e \<Rightarrow> False
        | Inr s \<Rightarrow> running s \<and> \<not> isProgramLoading s \<and> \<not> fetchCount (cpu s) > 0 \<and>
            step (cpu s) = Execute \<and> executeFunction (cpu s) = Some ExecADC \<and>
            currentCyclePulseCount (cpu s) = 0 \<and> opcode (cpu s) = Num 0x6D \<and>
            operand (cpu s) 0 = Num 16 \<and> operand (cpu s) 1 = Num 0 \<and>
            \<not> isWritePending (mem s) \<and> aRegister (cpu s) = 2 \<and> \<not> cRegister (cpu s) \<and>
            \<not> zRegister (cpu s) \<and> MEMORY (mem s) 16 = 255"
    by code_simp
  then obtain s where s: "ticks 42 (runProgram [0xA9, 0xFF, 0x8D, 0x10, 0x00, 0xA9, 0x02, 0x6D, 0x10, 0x00, 0x00]
                      (powerOn False False)) = Inr s"
    "running s" "\<not> isProgramLoading s" "\<not> fetchCount (cpu s) > 0"
    "step (cpu s) = Execute" "executeFunction (cpu s) = Some ExecADC"
    "currentCyclePulseCount (cpu s) = 0" "opcode (cpu s) = Num 0x6D"
    "operand (cpu s) 0 = Num 16" "operand (cpu s) 1 = Num 0"
    "\<not> isWritePending (mem s)" "aRegister (cpu s) = 2" "\<not> cRegister (cpu s)"
    "\<not> zRegister (cpu s)" "MEMORY (mem s) 16 = 255"
    by (auto split: sum.splits)
  have b: "(0::int) \<le> 16" "(16::int) < 256" "(0::int) \<le> 0" "(0::int) < 256" by simp_all
  from ADC_adds_with_carry [OF s(2-10) b s(11)] s(12-15)
  obtain s' where "ticks 2 s = Inr s'" "aRegister (cpu s') = 1" "cRegister (cpu s')"
    "\<not> zRegister (cpu s')"
    by auto
  with s show ?thesis by blast
qed

section \<open>SYS string print and the deferred-write registers\<close>









section \<open>INC repeated\<close>

lemma decoded_address:
  assumes "0 \<le> a" "a < 65536"
  shows "shl8_or (Num (a div 256)) (Num (a mod 256)) = a"
proof -
  have "0 \<le> a div 256" "a div 256 < 256" "0 \<le> a mod 256" "a mod 256 < 256"
    using assms by (simp_all add: div_less_iff_less_mult)
  then have "shl8_or (Num (a div 256)) (Num (a mod 256)) = a div 256 * 256 + a mod 256"
    by (rule shl8_or_bytes)
  then show ?thesis by simp
qed

lemma INC_exec:
  assumes "idle s" "0 < a" "a < 65536"
  shows "\<exists>s1 s2. Clock_pulse (decoded INC ExecINC 0xEE a s) = Inr s1 \<and> step (cpu s1) = Execute \<and>
           Clock_pulse s1 = Inr s2 \<and> idle s2 \<and> MEMORY (mem s2) = MEMORY (mem s) \<and>
           \<not> fetchCount (cpu s2) > 0 \<and> writeAddress (cpu s2) = Some a \<and>
           writeValue (cpu s2) = Some ((uint (MEMORY (mem s) a) + 1) AND 0xFF) \<and>
           step (cpu s2) = (if (uint (MEMORY (mem s) a) + 1) AND 0xFF \<noteq> 0
                            then Writeback else InterruptCheck) \<and>
           MAR (mem s2) = Some a \<and> isNum (MDR (mem s2))"
proof -
  have addr: "shl8_or (Num (a div 256)) (Num (a mod 256)) = a"
    using assms(2,3) by (simp add: decoded_address)
  show ?thesis
    using assms addr
    by (simp add: decoded_def setupDecode_def idle_def tick_defs Let_def runningInterrupt_Nil)
qed

lemma writeback_tick:
  assumes "idle s" "\<not> fetchCount (cpu s) > 0" "step (cpu s) = Writeback"
    "writeAddress (cpu s) = Some a" "writeValue (cpu s) = Some v" "0 \<le> a" "a < 65536"
  shows "\<exists>s1. Clock_pulse s = Inr s1 \<and> idle s1 \<and> step (cpu s1) = InterruptCheck \<and>
           MEMORY (mem s1) = (MEMORY (mem s))(a := word_of_int v) \<and>
           \<not> fetchCount (cpu s1) > 0 \<and> MAR (mem s1) = Some a \<and> isNum (MDR (mem s1))"
  using assms
  by (cases "opcode (cpu s)"; cases "operand (cpu s) 0"; cases "operand (cpu s) 1")
     (simp_all add: idle_def tick_defs Let_def runningInterrupt_Nil)

lemma check_tick:
  assumes "idle s" "\<not> fetchCount (cpu s) > 0" "step (cpu s) = InterruptCheck"
    "MAR (mem s) = Some a" "isNum (MDR (mem s))"
  shows "\<exists>s1. Clock_pulse s = Inr s1 \<and> idle s1 \<and> step (cpu s1) = Fetch \<and>
           MEMORY (mem s1) = MEMORY (mem s)"
  using assms
  by (cases "opcode (cpu s)"; cases "operand (cpu s) 0"; cases "operand (cpu s) 1")
     (simp_all add: idle_def tick_defs Let_def runningInterrupt_Nil)

lemma untilFetch_unroll:
  "0 < n \<Longrightarrow> untilFetch n s =
     (case Clock_pulse s of
        Inl e \<Rightarrow> Some (Inl e)
      | Inr s1 \<Rightarrow> if step (cpu s1) = Fetch then Some (Inr s1) else untilFetch (n - 1) s1)"
  by (cases n) (auto split: sum.splits)

lemma INC_once:
  assumes "idle s" "0 < a" "a < 65536"
  shows "\<exists>s'. INC_instruction a s = Some (Inr s') \<and> idle s' \<and>
           uint (MEMORY (mem s') a) =
             (if uint (MEMORY (mem s) a) = 255 then 255 else uint (MEMORY (mem s) a) + 1)"
proof -
  let ?w = "uint (MEMORY (mem s) a)"
  have u1: "INC_instruction a s = untilFetch 4 s1"
    if "Clock_pulse (decoded INC ExecINC 0xEE a s) = Inr s1" "step (cpu s1) = Execute" for s1
    unfolding INC_instruction_def by (subst untilFetch_unroll) (simp_all add: that)
  have u2: "untilFetch 4 s1 = untilFetch 3 s2"
    if "Clock_pulse s1 = Inr s2" "step (cpu s2) \<noteq> Fetch" for s1 s2
    by (subst untilFetch_unroll) (simp_all add: that)
  have u3: "untilFetch 3 s2 = untilFetch 2 s3"
    if "Clock_pulse s2 = Inr s3" "step (cpu s3) \<noteq> Fetch" for s2 s3
    by (subst untilFetch_unroll) (simp_all add: that)
  have d3: "untilFetch 3 s2 = Some (Inr s3)"
    if "Clock_pulse s2 = Inr s3" "step (cpu s3) = Fetch" for s2 s3
    by (subst untilFetch_unroll) (simp_all add: that)
  have d2: "untilFetch 2 s3 = Some (Inr s4)"
    if "Clock_pulse s3 = Inr s4" "step (cpu s4) = Fetch" for s3 s4
    by (subst untilFetch_unroll) (simp_all add: that)
  from INC_exec [OF assms]
  obtain s1 s2 where t1: "Clock_pulse (decoded INC ExecINC 0xEE a s) = Inr s1" "step (cpu s1) = Execute"
    and t2: "Clock_pulse s1 = Inr s2" and s2: "idle s2" "MEMORY (mem s2) = MEMORY (mem s)"
      "\<not> fetchCount (cpu s2) > 0" "writeAddress (cpu s2) = Some a"
      "writeValue (cpu s2) = Some ((?w + 1) AND 0xFF)"
      "step (cpu s2) = (if (?w + 1) AND 0xFF \<noteq> 0 then Writeback else InterruptCheck)"
      "MAR (mem s2) = Some a" "isNum (MDR (mem s2))"
    by blast
  have a0: "0 \<le> a" using assms(2) by simp
  show ?thesis
  proof (cases "?w = 255")
    case True
    then have "(?w + 1) AND 0xFF = 0" by (simp add: and_255)
    with s2(6) have st: "step (cpu s2) = InterruptCheck" by simp
    from check_tick [OF s2(1,3) st s2(7,8)]
    obtain s3 where s3: "Clock_pulse s2 = Inr s3" "idle s3" "step (cpu s3) = Fetch"
      "MEMORY (mem s3) = MEMORY (mem s2)" by blast
    have "INC_instruction a s = Some (Inr s3)"
      using u1 [OF t1] u2 [OF t2] d3 [OF s3(1,3)] st by simp
    with s3 s2(2) True show ?thesis by simp
  next
    case False
    have lt: "?w < 255" "0 \<le> ?w"
      using uint_byte_range(1,3) [of "MEMORY (mem s) a"] False by linarith+
    have "(?w + 1) mod 256 = ?w + 1"
      using lt by simp
    moreover have "?w + 1 \<noteq> 0"
      using lt(2) by linarith
    ultimately have wv: "(?w + 1) AND 0xFF = ?w + 1" "(?w + 1) AND 0xFF \<noteq> 0"
      by (simp_all add: and_255)
    with s2(6) have st: "step (cpu s2) = Writeback" by simp
    from s2(5) wv(1) have v: "writeValue (cpu s2) = Some (?w + 1)" by simp
    from writeback_tick [OF s2(1,3) st s2(4) v a0 assms(3)]
    obtain s3 where s3: "Clock_pulse s2 = Inr s3" "idle s3" "step (cpu s3) = InterruptCheck"
      "MEMORY (mem s3) = (MEMORY (mem s2))(a := word_of_int (?w + 1))"
      "\<not> fetchCount (cpu s3) > 0" "MAR (mem s3) = Some a" "isNum (MDR (mem s3))"
      by blast
    from check_tick [OF s3(2,5,3,6,7)]
    obtain s4 where s4: "Clock_pulse s3 = Inr s4" "idle s4" "step (cpu s4) = Fetch"
      "MEMORY (mem s4) = MEMORY (mem s3)" by blast
    have run: "INC_instruction a s = Some (Inr s4)"
      using u1 [OF t1] u2 [OF t2] u3 [OF s3(1)] d2 [OF s4(1,3)] st s3(3) by simp
    have "uint (MEMORY (mem s4) a) = (?w + 1) mod 256"
      by (simp only: s4(4) s3(4) fun_upd_same uint_byte)
    also have "\<dots> = ?w + 1" by fact
    finally show ?thesis using run s4(2) False by simp
  qed
qed




lemma repeatINC_saturates:
  "idle s \<Longrightarrow> 0 < a \<Longrightarrow> a < 65536 \<Longrightarrow>
   \<exists>s'. repeatINC n a s = Some (Inr s') \<and> idle s' \<and>
        uint (MEMORY (mem s') a) = min 255 (uint (MEMORY (mem s) a) + int n)"
proof (induction n arbitrary: s)
  case 0
  then show ?case using uint_byte_range(3) [of "MEMORY (mem s) a"] by simp
next
  case (Suc n)
  from INC_once [OF Suc.prems]
  obtain s1 where s1: "INC_instruction a s = Some (Inr s1)" "idle s1"
    "uint (MEMORY (mem s1) a) =
       (if uint (MEMORY (mem s) a) = 255 then 255 else uint (MEMORY (mem s) a) + 1)" by blast
  from Suc.IH [OF s1(2) Suc.prems(2,3)]
  obtain s' where s': "repeatINC n a s1 = Some (Inr s')" "idle s'"
    "uint (MEMORY (mem s') a) = min 255 (uint (MEMORY (mem s1) a) + int n)" by blast
  have "min 255 (uint (MEMORY (mem s1) a) + int n) = min 255 (uint (MEMORY (mem s) a) + int (Suc n))"
  proof (cases "uint (MEMORY (mem s) a) = 255")
    case True
    with s1(3) show ?thesis by simp
  next
    case False
    with s1(3) have "uint (MEMORY (mem s1) a) + int n = uint (MEMORY (mem s) a) + int (Suc n)"
      by simp
    then show ?thesis by (simp only:)
  qed
  then have "uint (MEMORY (mem s') a) = min 255 (uint (MEMORY (mem s) a) + int (Suc n))"
    using s'(3) by (simp only:)
  moreover have "repeatINC (Suc n) a s = Some (Inr s')"
    by (simp add: s1(1) s'(1))
  ultimately show ?case using s'(2) by blast
qed

text \<open>
  C4, evaluated at the power-on state, where the cell at \<open>0x0010\<close> holds 0: 256
  executions of \<open>INC $0010\<close>, each run from \<open>Execute\<close> to the next \<open>Fetch\<close>, leave \<open>0xFF\<close>
  in the cell, not 0. The cell counts up to \<open>0xFF\<close> and stays there, because the
  write-back of the value 0 is skipped by the gate of the \<open>Execute\<close> stage.
\<close>

theorem INC_256_times_saturates:
  "\<exists>s'. repeatINC 256 0x10 (powerOn False False) = Some (Inr s') \<and>
        MEMORY_at (mem (powerOn False False)) (Some 0x10) = Num 0 \<and>
        MEMORY_at (mem s') (Some 0x10) = Num 0xFF"
proof -
  have i: "idle (powerOn False False)" by (simp add: idle_def powerOn_def)
  have z: "MEMORY (mem (powerOn False False)) 0x10 = 0" by (simp add: powerOn_def)
  have r: "(0::int) < 0x10" "(0x10::int) < 65536" by simp_all
  from repeatINC_saturates [OF i r, of 256]
  obtain s' where s': "repeatINC 256 0x10 (powerOn False False) = Some (Inr s')"
    "uint (MEMORY (mem s') 0x10) = min 255 (uint (MEMORY (mem (powerOn False False)) 0x10) + int 256)"
    by blast
  from s'(2) have "uint (MEMORY (mem s') 0x10) = 255" by (simp only: z) simp
  then have "MEMORY_at (mem s') (Some 0x10) = Num 0xFF" by (simp add: MEMORY_at_def)
  moreover have "MEMORY_at (mem (powerOn False False)) (Some 0x10) = Num 0"
    by (simp add: MEMORY_at_def z)
  ultimately show ?thesis using s'(1) by blast
qed

end
